theory Spec2Isabelle
  imports Complex_Main "HOL-Library.AList"
begin

section \<open>JavaScript values\<close>

text \<open>
  The values that flow through \<open>buildCreateApi\<close> without being taken apart: query
  arguments, cache keys, the result of \<open>extractRehydrationInfo\<close>, the
  \<open>overrideExisting\<close> flag, \<open>maxPages\<close>. A function value is a reference
  \<open>JFunction f\<close>; what calling it returns is given by the environment (see \<open>env\<close>).
  Numbers are the reals together with \<open>NaN\<close>, which is all that \<open>maxPages < 1\<close> reads.
\<close>

datatype js_value =
    JUndefined
  | JNull
  | JBool bool
  | JNumber real
  | JNaN
  | JString string
  | JFunction nat
  | JArray "js_value list"
  | JObject "(string \<times> js_value) list"

fun typeof :: "js_value \<Rightarrow> string" where
  "typeof JUndefined = ''undefined''"
| "typeof JNull = ''object''"
| "typeof (JBool b) = ''boolean''"
| "typeof (JNumber r) = ''number''"
| "typeof JNaN = ''number''"
| "typeof (JString s) = ''string''"
| "typeof (JFunction f) = ''function''"
| "typeof (JArray xs) = ''object''"
| "typeof (JObject kvs) = ''object''"

text \<open>\<open>v < 1\<close> for a value whose \<open>typeof\<close> is \<open>number\<close>; every comparison with NaN is false.\<close>

fun less_than_one :: "js_value \<Rightarrow> bool" where
  "less_than_one (JNumber r) = (r < 1)"
| "less_than_one v = False"

text \<open>\<open>v != null\<close>: loose inequality with null is false for null and undefined only.\<close>

fun not_nullish :: "js_value \<Rightarrow> bool" where
  "not_nullish JUndefined = False"
| "not_nullish JNull = False"
| "not_nullish v = True"

text \<open>
  An optional property of an options object: the key is absent, or present holding
  \<open>undefined\<close>, or present holding a value. Object spread copies a present key even
  when it holds \<open>undefined\<close>, so the two are kept apart.
\<close>

datatype 'a optional = Absent | Undef | Val 'a

text \<open>
  The property names of \<open>Object.prototype\<close>, which every object created by a literal
  inherits. All are writable data properties but \<open>__proto__\<close>, an accessor whose getter
  returns the prototype of the object it is read on and whose setter replaces it.
\<close>

definition Object_prototype_properties :: "string list" where
  "Object_prototype_properties =
     [''constructor'', ''__defineGetter__'', ''__defineSetter__'', ''hasOwnProperty'',
      ''__lookupGetter__'', ''__lookupSetter__'', ''isPrototypeOf'', ''propertyIsEnumerable'',
      ''toString'', ''valueOf'', ''__proto__'', ''toLocaleString'']"

section \<open>Endpoint definitions\<close>

text \<open>
  Modelled from the spec: the enum \<open>DefinitionType\<close> and the types of endpoint definitions
  are declared in \<open>./endpointDefinitions\<close>, which is not among the sources. The enum has
  the three members that \<open>injectEndpoints\<close> uses and the claims name; an infinite query's
  options and an endpoint definition have the properties that this file reads, and keep
  the others in an association list.
\<close>

datatype DefinitionType =
    DefinitionType_query
  | DefinitionType_mutation
  | DefinitionType_infinitequery

record InfiniteQueryOptions =
  maxPages :: js_value
  getPreviousPageParam :: js_value
  iqo_other :: "(string \<times> js_value) list"

text \<open>
  An endpoint definition is an object. The properties this file reads are fields (\<open>None\<close>
  is an absent key; a key holding \<open>undefined\<close> is \<open>Some JUndefined\<close>); the rest of the
  object is the association list \<open>ed_other\<close>.
\<close>

record EndpointDefinition =
  ed_type :: "DefinitionType option"
  ed_serializeQueryArgs :: "js_value option"
  ed_infiniteQueryOptions :: "InfiniteQueryOptions option"
  ed_other :: "(string \<times> js_value) list"

text \<open>The own keys of such an object.\<close>

definition definition_keys :: "EndpointDefinition \<Rightarrow> string list" where
  "definition_keys d =
     (case ed_type d of None \<Rightarrow> [] | Some v \<Rightarrow> [''type''])
     @ (case ed_serializeQueryArgs d of None \<Rightarrow> [] | Some v \<Rightarrow> [''serializeQueryArgs''])
     @ (case ed_infiniteQueryOptions d of None \<Rightarrow> [] | Some v \<Rightarrow> [''infiniteQueryOptions''])
     @ map fst (ed_other d)"

text \<open>
  \<open>Object.prototype\<close> as the language provides it, held as an object of the same shape:
  \<open>enhanceEndpoints\<close> can hand it to \<open>Object.assign\<close> or to a callback as it does a
  definition. Only its keys are read; the values stand for the built-in functions.
\<close>

definition initial_Object_prototype :: EndpointDefinition where
  "initial_Object_prototype =
     \<lparr> ed_type = None, ed_serializeQueryArgs = None, ed_infiniteQueryOptions = None,
       ed_other = map (\<lambda>k. (k, JFunction 0)) Object_prototype_properties \<rparr>"

text \<open>
  The argument of a \<open>SerializeQueryArgs\<close> function, declared in
  \<open>./defaultSerializeQueryArgs\<close>, and the builder handed to the \<open>endpoints\<close> callback.
\<close>

record QueryArgsApi =
  queryArgs :: js_value
  endpointDefinition :: EndpointDefinition
  endpointName :: string

record EndpointBuilder =
  query :: "EndpointDefinition \<Rightarrow> EndpointDefinition"
  mutation :: "EndpointDefinition \<Rightarrow> EndpointDefinition"
  infiniteQuery :: "EndpointDefinition \<Rightarrow> EndpointDefinition"

datatype error = Error string | TypeError string

section \<open>Options, context and the state of one api\<close>

text \<open>
  \<open>CreateApiOptions\<close>, field by field. \<open>'s\<close> and \<open>'e\<close> are the types of the two function
  valued options, which differ between the user's options and \<open>optionsWithDefaults\<close>.
\<close>

record ('s, 'e) CreateApiOptions =
  baseQuery :: js_value
  tagTypes :: "string list optional"
  reducerPath :: "string optional"
  opt_serializeQueryArgs :: "'s optional"
  endpoints :: "EndpointBuilder \<Rightarrow> (string \<times> EndpointDefinition) list"
  keepUnusedDataFor :: "js_value optional"
  refetchOnMountOrArgChange :: "js_value optional"
  refetchOnFocus :: "bool optional"
  refetchOnReconnect :: "bool optional"
  invalidationBehavior :: "string optional"
  opt_extractRehydrationInfo :: "'e optional"
  onSchemaFailure :: "js_value optional"
  catchSchemaFailure :: "js_value optional"
  skipSchemaValidation :: "bool optional"

text \<open>The memoized \<open>extractRehydrationInfo\<close> closure, as a value stored in an object.\<close>

datatype closure = Memoized_extractRehydrationInfo

type_synonym OptionsWithDefaults =
  "(QueryArgsApi \<Rightarrow> error + js_value, closure) CreateApiOptions"

text \<open>
  The data of \<open>ApiContext\<close>, declared in \<open>./apiTypes\<close>; its three functions are
  \<open>batch\<close>, \<open>extractRehydrationInfo\<close> and \<open>hasRehydrationInfo\<close> below.
\<close>

record ApiContext =
  endpointDefinitions :: "string \<rightharpoonup> EndpointDefinition"
  apiUid :: string

text \<open>
  A module and the object its \<open>init\<close> returns are opaque (\<open>'m\<close>): what this file does with
  them is call \<open>init\<close> and \<open>injectEndpoint\<close>, and each call is logged with its arguments.
  The code of the modules is not part of this file: a call is taken to return and to leave
  the api object, the options with defaults and the context as they are.
\<close>

datatype 'm call =
    Init 'm nat OptionsWithDefaults ApiContext
  | InjectEndpoint 'm string EndpointDefinition

text \<open>
  The host and the imports: whether \<open>process.env.NODE_ENV\<close> is \<open>development\<close> (with
  \<open>process\<close> defined), the imported \<open>isInfiniteQueryDefinition\<close> and
  \<open>defaultSerializeQueryArgs\<close>, the string \<open>nanoid()\<close> returns, and what calling a
  function value on a \<open>QueryArgsApi\<close> returns.
\<close>

record env =
  development :: bool
  isInfiniteQueryDefinition :: "EndpointDefinition \<Rightarrow> bool"
  defaultSerializeQueryArgs :: "QueryArgsApi \<Rightarrow> js_value"
  nanoid :: string
  call_function :: "nat \<Rightarrow> QueryArgsApi \<Rightarrow> js_value"

text \<open>
  The variables \<open>baseCreateApi\<close> closes over that change after creation, the reference of
  the \<open>api\<close> object, the log of module calls and the lines written with \<open>console.error\<close>.
  \<open>'a\<close> is the identity of an action object, the key of the two memoization caches.

  The object \<open>context.endpointDefinitions\<close> is created by the literal \<open>{}\<close>. Its own keys
  are the map \<open>endpointDefinitions\<close> of the context. Its prototype is \<open>Object.prototype\<close>
  (\<open>None\<close>) until an assignment to the key \<open>__proto__\<close> replaces it by a definition, whose
  own prototype is \<open>Object.prototype\<close>. \<open>Object.prototype\<close> itself is part of the state,
  since \<open>enhanceEndpoints\<close> can write to it.
\<close>

record ('m, 'a) ApiState =
  api :: nat
  optionsWithDefaults :: OptionsWithDefaults
  api_context :: ApiContext
  endpointDefinitions_prototype :: "EndpointDefinition option"
  Object_prototype :: EndpointDefinition
  initializedModules :: "'m list"
  extract_cache :: "'a \<rightharpoonup> js_value"
  has_cache :: "'a \<rightharpoonup> bool"
  calls :: "'m call list"
  console :: "string list"

section \<open>The registry and its prototype chain\<close>

text \<open>
  \<open>name in context.endpointDefinitions\<close>: the operator follows the prototype chain, so it
  is true for an own key, for a key of a definition that has become the prototype, and for
  a key of \<open>Object.prototype\<close>.
\<close>

definition inherited_properties :: "('m, 'a) ApiState \<Rightarrow> string list" where
  "inherited_properties s =
     (case endpointDefinitions_prototype s of None \<Rightarrow> [] | Some d \<Rightarrow> definition_keys d)
     @ definition_keys (Object_prototype s)"

definition has_property :: "string \<Rightarrow> ('m, 'a) ApiState \<Rightarrow> bool" where
  "has_property name s =
     (endpointDefinitions (api_context s) name \<noteq> None \<or> name \<in> set (inherited_properties s))"

text \<open>
  Whether reading or writing the key \<open>__proto__\<close> of the registry reaches the accessor of
  \<open>Object.prototype\<close>: the registry has no own key of that name, a definition that has
  become its prototype has none either, and the accessor is still there.
\<close>

definition reaches_proto_accessor :: "('m, 'a) ApiState \<Rightarrow> bool" where
  "reaches_proto_accessor s =
     (endpointDefinitions (api_context s) ''__proto__'' = None
      \<and> (case endpointDefinitions_prototype s of
            None \<Rightarrow> True
          | Some d \<Rightarrow> ''__proto__'' \<notin> set (definition_keys d))
      \<and> ''__proto__'' \<in> set (definition_keys (Object_prototype s)))"

text \<open>
  \<open>context.endpointDefinitions[endpointName] = definition\<close>. The assignment adds or
  overwrites an own key, also for a name that is inherited as a data property; for
  \<open>__proto__\<close>, when it reaches the accessor, the setter makes the definition the
  prototype of the registry and no own key is added.
\<close>

definition assign_definition ::
  "string \<Rightarrow> EndpointDefinition \<Rightarrow> ('m, 'a) ApiState \<Rightarrow> ('m, 'a) ApiState" where
  "assign_definition name definition s =
     (if name = ''__proto__'' \<and> reaches_proto_accessor s
      then s\<lparr>endpointDefinitions_prototype := Some definition\<rparr>
      else s\<lparr>api_context := (api_context s)
               \<lparr>endpointDefinitions :=
                  (endpointDefinitions (api_context s))(name \<mapsto> definition)\<rparr>\<rparr>)"

section \<open>injectEndpoints\<close>

definition build :: EndpointBuilder where
  "build =
     \<lparr> query = (\<lambda>x. x\<lparr>ed_type := Some DefinitionType_query\<rparr>),
       mutation = (\<lambda>x. x\<lparr>ed_type := Some DefinitionType_mutation\<rparr>),
       infiniteQuery = (\<lambda>x. x\<lparr>ed_type := Some DefinitionType_infinitequery\<rparr>) \<rparr>"

definition override_message :: "string \<Rightarrow> string" where
  "override_message name =
     ''called `injectEndpoints` to override already-existing endpointName '' @ name
       @ '' without specifying `overrideExisting: true`''"

text \<open>The development-only check of an infinite query's options; \<open>Some e\<close> is a throw.\<close>

definition check_infiniteQueryOptions :: "env \<Rightarrow> string \<Rightarrow> EndpointDefinition \<Rightarrow> error option" where
  "check_infiniteQueryOptions e name definition =
     (if isInfiniteQueryDefinition e definition then
        (case ed_infiniteQueryOptions definition of
           None \<Rightarrow> Some (TypeError ''infiniteQueryOptions is undefined'')
         | Some infiniteQueryOptions \<Rightarrow>
             if typeof (maxPages infiniteQueryOptions) = ''number'' then
               if less_than_one (maxPages infiniteQueryOptions) then
                 Some (Error (''maxPages for endpoint '' @ [CHR 0x27] @ name @ [CHR 0x27]
                                @ '' must be a number greater than 0''))
               else if typeof (getPreviousPageParam infiniteQueryOptions) \<noteq> ''function'' then
                 Some (Error (''getPreviousPageParam for endpoint '' @ [CHR 0x27] @ name
                                @ [CHR 0x27] @ '' must be a function if maxPages is used''))
               else None
             else None)
      else None)"

text \<open>
  The loop over \<open>Object.entries(evaluatedEndpoints)\<close>: the list of the entries, whose
  names are pairwise different since they are the keys of one object. A throw leaves the
  state as the iterations before it made it.
\<close>

fun inject_loop ::
  "env \<Rightarrow> js_value \<Rightarrow> (string \<times> EndpointDefinition) list \<Rightarrow> ('m, 'a) ApiState
    \<Rightarrow> (error + unit) \<times> ('m, 'a) ApiState" where
  "inject_loop e overrideExisting [] s = (Inr (), s)"
| "inject_loop e overrideExisting ((name, definition) # rest) s =
     (if overrideExisting \<noteq> JBool True \<and> has_property name s then
        (if overrideExisting = JString ''throw'' then
           (Inl (Error (override_message name)), s)
         else
           inject_loop e overrideExisting rest
             (if development e
              then s\<lparr>console := console s @ [override_message name]\<rparr>
              else s))
      else
        (case (if development e then check_infiniteQueryOptions e name definition
               else None) of
           Some err \<Rightarrow> (Inl err, s)
         | None \<Rightarrow>
             inject_loop e overrideExisting rest
               ((assign_definition name definition s)
                  \<lparr>calls := calls s
                     @ map (\<lambda>m. InjectEndpoint m name definition)
                         (initializedModules s)\<rparr>)))"

definition injectEndpoints ::
  "env \<Rightarrow> (EndpointBuilder \<Rightarrow> (string \<times> EndpointDefinition) list) \<Rightarrow> js_value
    \<Rightarrow> ('m, 'a) ApiState \<Rightarrow> (error + nat) \<times> ('m, 'a) ApiState" where
  "injectEndpoints e inject_endpoints overrideExisting s =
     (let evaluatedEndpoints = inject_endpoints build in
      case inject_loop e overrideExisting evaluatedEndpoints s of
        (Inl err, s') \<Rightarrow> (Inl err, s')
      | (Inr u, s') \<Rightarrow> (Inr (api s'), s'))"

section \<open>serializeQueryArgs\<close>

text \<open>
  The method \<open>serializeQueryArgs\<close> of \<open>optionsWithDefaults\<close>. The test
  \<open>'serializeQueryArgs' in queryArgsApi.endpointDefinition\<close> is true for a key that is
  there, whatever it holds. It is made on the keys of the definition that the caller
  passes: \<open>Object.prototype\<close>, from which the definition inherits, is taken to have no
  property of that name. Calling a value that is not a function is a TypeError. The test
  \<open>options.serializeQueryArgs\<close> of the other branch is true for a function and false for
  an absent key and for \<open>undefined\<close>.
\<close>

definition serializeQueryArgs ::
  "env \<Rightarrow> (QueryArgsApi \<Rightarrow> js_value, 'e) CreateApiOptions \<Rightarrow> QueryArgsApi \<Rightarrow> error + js_value" where
  "serializeQueryArgs e options queryArgsApi =
     (let finalSerializeQueryArgs =
        (case ed_serializeQueryArgs (endpointDefinition queryArgsApi) of
           Some endpointSQA \<Rightarrow>
             (\<lambda>queryArgsApi.
                case endpointSQA of
                  JFunction f \<Rightarrow>
                    (let initialResult = call_function e f queryArgsApi in
                     if typeof initialResult = ''string'' then Inr initialResult
                     else Inr (defaultSerializeQueryArgs e
                                 (queryArgsApi\<lparr>queryArgs := initialResult\<rparr>)))
                | _ \<Rightarrow> Inl (TypeError ''endpointSQA is not a function''))
         | None \<Rightarrow>
             (case opt_serializeQueryArgs options of
                Val f \<Rightarrow> (\<lambda>queryArgsApi. Inr (f queryArgsApi))
              | _ \<Rightarrow> (\<lambda>queryArgsApi. Inr (defaultSerializeQueryArgs e queryArgsApi))))
      in finalSerializeQueryArgs queryArgsApi)"

section \<open>The options with defaults\<close>

text \<open>A default written before \<open>...options\<close> in the object literal: a present key wins.\<close>

definition with_default :: "'a \<Rightarrow> 'a optional \<Rightarrow> 'a optional" where
  "with_default d p = (case p of Absent \<Rightarrow> Val d | _ \<Rightarrow> p)"

definition make_optionsWithDefaults ::
  "env \<Rightarrow> (QueryArgsApi \<Rightarrow> js_value, 'e) CreateApiOptions \<Rightarrow> OptionsWithDefaults" where
  "make_optionsWithDefaults e options =
     \<lparr> baseQuery = baseQuery options,
       tagTypes = Val (case tagTypes options of Val ts \<Rightarrow> ts | _ \<Rightarrow> []),
       reducerPath = with_default ''api'' (reducerPath options),
       opt_serializeQueryArgs = Val (serializeQueryArgs e options),
       endpoints = endpoints options,
       keepUnusedDataFor = with_default (JNumber 60) (keepUnusedDataFor options),
       refetchOnMountOrArgChange = with_default (JBool False) (refetchOnMountOrArgChange options),
       refetchOnFocus = with_default False (refetchOnFocus options),
       refetchOnReconnect = with_default False (refetchOnReconnect options),
       invalidationBehavior = with_default ''delayed'' (invalidationBehavior options),
       opt_extractRehydrationInfo = Val Memoized_extractRehydrationInfo,
       onSchemaFailure = onSchemaFailure options,
       catchSchemaFailure = catchSchemaFailure options,
       skipSchemaValidation = skipSchemaValidation options \<rparr>"

section \<open>The context: batch and the rehydration functions\<close>

text \<open>
  A callback of the user is a function of the state of the program around the api (\<open>'w\<close>):
  it may read it and, for the callback given to \<open>batch\<close>, change it. Callbacks return; a
  callback that throws is not modelled.
\<close>

definition batch :: "('w \<Rightarrow> 'r \<times> 'w) \<Rightarrow> 'w \<Rightarrow> js_value \<times> 'w" where
  "batch fn w = (let (r, w') = fn w in (JUndefined, w'))"

text \<open>
  Modelled from the spec: \<open>weakMapMemoize\<close> is imported from the package reselect and is
  not among the sources. The claim calls the function it returns a memoization: the result
  computed for an argument is kept under the identity of that argument and returned for every
  later call with it. The cache of each memoized function is a field of the state, read with
  \<open>get_cache\<close> and written with \<open>set_cache\<close>.
\<close>

definition weakMapMemoize ::
  "('k \<Rightarrow> 'st \<Rightarrow> 'v \<times> 'st) \<Rightarrow> ('st \<Rightarrow> 'k \<rightharpoonup> 'v) \<Rightarrow> (('k \<rightharpoonup> 'v) \<Rightarrow> 'st \<Rightarrow> 'st)
    \<Rightarrow> 'k \<Rightarrow> 'st \<Rightarrow> 'v \<times> 'st" where
  "weakMapMemoize func get_cache set_cache arg st =
     (case get_cache st arg of
        Some v \<Rightarrow> (v, st)
      | None \<Rightarrow> (let (v, st') = func arg st in (v, set_cache ((get_cache st')(arg \<mapsto> v)) st')))"

definition extractRehydrationInfo ::
  "('s, 'a \<Rightarrow> string \<Rightarrow> 'w \<Rightarrow> js_value) CreateApiOptions \<Rightarrow> 'w \<Rightarrow> 'a \<Rightarrow> ('m, 'a) ApiState
    \<Rightarrow> js_value \<times> ('m, 'a) ApiState" where
  "extractRehydrationInfo options w =
     weakMapMemoize
       (\<lambda>action s.
          ((case opt_extractRehydrationInfo options of
              Val f \<Rightarrow> f action (case reducerPath options of Val r \<Rightarrow> r | _ \<Rightarrow> ''api'') w
            | _ \<Rightarrow> JUndefined), s))
       extract_cache (\<lambda>c s. s\<lparr>extract_cache := c\<rparr>)"

definition hasRehydrationInfo ::
  "('s, 'a \<Rightarrow> string \<Rightarrow> 'w \<Rightarrow> js_value) CreateApiOptions \<Rightarrow> 'w \<Rightarrow> 'a \<Rightarrow> ('m, 'a) ApiState
    \<Rightarrow> bool \<times> ('m, 'a) ApiState" where
  "hasRehydrationInfo options w =
     weakMapMemoize
       (\<lambda>action s. (let (r, s') = extractRehydrationInfo options w action s
                     in (not_nullish r, s')))
       has_cache (\<lambda>c s. s\<lparr>has_cache := c\<rparr>)"

section \<open>enhanceEndpoints\<close>

fun addTagTypes_loop :: "string list \<Rightarrow> string list \<Rightarrow> string list" where
  "addTagTypes_loop [] ts = ts"
| "addTagTypes_loop (eT # rest) ts =
     addTagTypes_loop rest (if eT \<notin> set ts then ts @ [eT] else ts)"

text \<open>
  A partial definition is a function, which may change the object it is given, or an
  object whose properties \<open>Object.assign\<close> copies onto the object that was read.
\<close>

datatype partialDefinition =
    PartialFunction "EndpointDefinition \<Rightarrow> EndpointDefinition"
  | PartialObject EndpointDefinition

definition Object_assign :: "EndpointDefinition \<Rightarrow> EndpointDefinition \<Rightarrow> EndpointDefinition" where
  "Object_assign target source =
     \<lparr> ed_type = (case ed_type source of None \<Rightarrow> ed_type target | Some v \<Rightarrow> Some v),
       ed_serializeQueryArgs =
         (case ed_serializeQueryArgs source of
            None \<Rightarrow> ed_serializeQueryArgs target | Some v \<Rightarrow> Some v),
       ed_infiniteQueryOptions =
         (case ed_infiniteQueryOptions source of
            None \<Rightarrow> ed_infiniteQueryOptions target | Some v \<Rightarrow> Some v),
       ed_other = foldl (\<lambda>kvs (k, v). AList.update k v kvs) (ed_other target) (ed_other source) \<rparr>"

text \<open>What the body of the loop does to the object that the read gave it.\<close>

definition apply_partialDefinition ::
  "partialDefinition \<Rightarrow> EndpointDefinition \<Rightarrow> EndpointDefinition" where
  "apply_partialDefinition partialDefinition d =
     (case partialDefinition of
        PartialFunction f \<Rightarrow> f d
      | PartialObject p \<Rightarrow> Object_assign d p)"

text \<open>
  The loop over \<open>Object.entries(endpoints)\<close>. The read
  \<open>context.endpointDefinitions[endpointName]\<close> follows the prototype chain. For an own key
  it gives the registered definition, which is changed. For \<open>__proto__\<close>, when the read
  reaches the accessor, it gives the prototype of the registry, and that object is changed:
  the definition that has become the prototype, or \<open>Object.prototype\<close> itself. In every
  other case the read gives \<open>undefined\<close> or the value of an inherited data property: the
  function is called with it, the object is assigned to it or to a fresh \<open>{}\<close>, and the
  keys of the registry and of its prototype chain stay as they are. The values that a
  definition holds are data here: an object held by a property of a definition is not
  followed when it is changed through another reference.
\<close>

fun enhance_loop ::
  "(string \<times> partialDefinition) list \<Rightarrow> ('m, 'a) ApiState \<Rightarrow> ('m, 'a) ApiState" where
  "enhance_loop [] s = s"
| "enhance_loop ((name, partialDefinition) # rest) s =
     enhance_loop rest
       (case endpointDefinitions (api_context s) name of
          Some d \<Rightarrow>
            s\<lparr>api_context := (api_context s)
                \<lparr>endpointDefinitions :=
                   (endpointDefinitions (api_context s))
                     (name \<mapsto> apply_partialDefinition partialDefinition d)\<rparr>\<rparr>
        | None \<Rightarrow>
            if name = ''__proto__'' \<and> reaches_proto_accessor s then
              (case endpointDefinitions_prototype s of
                 Some d \<Rightarrow>
                   s\<lparr>endpointDefinitions_prototype :=
                       Some (apply_partialDefinition partialDefinition d)\<rparr>
               | None \<Rightarrow>
                   s\<lparr>Object_prototype :=
                       apply_partialDefinition partialDefinition (Object_prototype s)\<rparr>)
            else s)"

definition enhanceEndpoints ::
  "string list optional \<Rightarrow> (string \<times> partialDefinition) list optional \<Rightarrow> ('m, 'a) ApiState
    \<Rightarrow> (error + nat) \<times> ('m, 'a) ApiState" where
  "enhanceEndpoints addTagTypes enhance_endpoints s =
     (case (case addTagTypes of
              Val tags \<Rightarrow>
                (case tagTypes (optionsWithDefaults s) of
                   Val ts \<Rightarrow>
                     Inr (s\<lparr>optionsWithDefaults := (optionsWithDefaults s)
                              \<lparr>tagTypes := Val (addTagTypes_loop tags ts)\<rparr>\<rparr>)
                 | _ \<Rightarrow> if tags = [] then Inr s
                        else Inl (TypeError ''optionsWithDefaults.tagTypes is undefined''))
            | _ \<Rightarrow> Inr s) of
        Inl err \<Rightarrow> (Inl err, s)
      | Inr s1 \<Rightarrow>
          (let s2 = (case enhance_endpoints of
                       Val entries \<Rightarrow> enhance_loop entries s1
                     | _ \<Rightarrow> s1)
           in (Inr (api s2), s2)))"

section \<open>buildCreateApi\<close>

text \<open>
  \<open>api_object\<close> is the reference of the object \<open>api\<close> that this call creates. The modules
  are initialized in the order of the list; the endpoints of the options are injected last.
\<close>

definition baseCreateApi ::
  "env \<Rightarrow> nat \<Rightarrow> 'm list \<Rightarrow> (QueryArgsApi \<Rightarrow> js_value, 'e) CreateApiOptions
    \<Rightarrow> (error + nat) \<times> ('m, 'a) ApiState" where
  "baseCreateApi e api_object modules options =
     (let s0 = \<lparr> api = api_object,
                 optionsWithDefaults = make_optionsWithDefaults e options,
                 api_context = \<lparr> endpointDefinitions = Map.empty, apiUid = nanoid e \<rparr>,
                 endpointDefinitions_prototype = None,
                 Object_prototype = initial_Object_prototype,
                 initializedModules = [],
                 extract_cache = Map.empty,
                 has_cache = Map.empty,
                 calls = [],
                 console = [] \<rparr>;
          s1 = s0\<lparr> initializedModules := modules,
                   calls := calls s0
                     @ map (\<lambda>m. Init m (api s0) (optionsWithDefaults s0) (api_context s0)) modules \<rparr>
      in injectEndpoints e (endpoints options) JUndefined s1)"

text \<open>The type of \<open>modules\<close> is a tuple with at least one module.\<close>

definition buildCreateApi ::
  "env \<Rightarrow> 'm \<Rightarrow> 'm list \<Rightarrow> nat \<Rightarrow> (QueryArgsApi \<Rightarrow> js_value, 'e) CreateApiOptions
    \<Rightarrow> (error + nat) \<times> ('m, 'a) ApiState" where
  "buildCreateApi e m ms = (\<lambda>api_object options. baseCreateApi e api_object (m # ms) options)"

section \<open>Definitions used to state the properties\<close>

text \<open>
  The entries that a run of the loop which does not throw does not skip, for a registry
  with the own keys \<open>defs\<close> that inherits the names \<open>inherited\<close>. With pairwise different
  names, as \<open>Object.entries\<close> gives them, the test can be made against the registry the
  call started with.
\<close>

definition accepted ::
  "js_value \<Rightarrow> (string \<rightharpoonup> EndpointDefinition) \<Rightarrow> string list
    \<Rightarrow> (string \<times> EndpointDefinition) list \<Rightarrow> (string \<times> EndpointDefinition) list" where
  "accepted overrideExisting defs inherited entries =
     filter (\<lambda>(name, definition).
               overrideExisting = JBool True \<or> (defs name = None \<and> name \<notin> set inherited))
       entries"

text \<open>
  The state in which \<open>baseCreateApi\<close> calls \<open>injectEndpoints\<close>: the modules have been
  initialized with the api object \<open>api_object\<close>, the options with defaults \<open>owd\<close> and the
  context, whose registry is empty.
\<close>

definition created :: "env \<Rightarrow> nat \<Rightarrow> 'm list \<Rightarrow> OptionsWithDefaults \<Rightarrow> ('m, 'a) ApiState" where
  "created e api_object modules owd =
     \<lparr> api = api_object,
       optionsWithDefaults = owd,
       api_context = \<lparr> endpointDefinitions = Map.empty, apiUid = nanoid e \<rparr>,
       endpointDefinitions_prototype = None,
       Object_prototype = initial_Object_prototype,
       initializedModules = modules,
       extract_cache = Map.empty,
       has_cache = Map.empty,
       calls = map (\<lambda>m. Init m api_object owd
                      \<lparr>endpointDefinitions = Map.empty, apiUid = nanoid e\<rparr>) modules,
       console = [] \<rparr>"

subsection \<open>A small api, for the concrete instances\<close>

definition example_env :: env where
  "example_env =
     \<lparr> development = False,
       isInfiniteQueryDefinition = (\<lambda>d. ed_type d = Some DefinitionType_infinitequery),
       defaultSerializeQueryArgs =
         (\<lambda>q. JString (endpointName q @ ''('' @
                 (case queryArgs q of JString a \<Rightarrow> a | JObject kvs \<Rightarrow> ''object'' | _ \<Rightarrow> ''?'')
                 @ '')'')),
       nanoid = ''uid-1'',
       call_function =
         (\<lambda>f q. if f = 0 then JString ''custom-key'' else JObject [(''id'', queryArgs q)]) \<rparr>"

definition example_definition :: "string \<Rightarrow> EndpointDefinition" where
  "example_definition url =
     \<lparr> ed_type = None, ed_serializeQueryArgs = None, ed_infiniteQueryOptions = None,
       ed_other = [(''query'', JString url)] \<rparr>"

text \<open>
  The action objects of the example are numbered, and the state of the program around the
  api gives the content of each: \<open>extractRehydrationInfo\<close> returns that content.
\<close>

definition example_options ::
  "(QueryArgsApi \<Rightarrow> js_value, nat \<Rightarrow> string \<Rightarrow> (nat \<Rightarrow> js_value) \<Rightarrow> js_value) CreateApiOptions" where
  "example_options =
     \<lparr> baseQuery = JFunction 0,
       tagTypes = Val [''Post''],
       reducerPath = Absent,
       opt_serializeQueryArgs = Absent,
       endpoints = (\<lambda>b. [(''getPosts'', query b (example_definition ''posts''))]),
       keepUnusedDataFor = Absent,
       refetchOnMountOrArgChange = Absent,
       refetchOnFocus = Absent,
       refetchOnReconnect = Absent,
       invalidationBehavior = Absent,
       opt_extractRehydrationInfo = Val (\<lambda>action r w. w action),
       onSchemaFailure = Absent,
       catchSchemaFailure = Absent,
       skipSchemaValidation = Absent \<rparr>"

definition example_state :: "(string, nat) ApiState" where
  "example_state = snd (baseCreateApi example_env 7 [''core'', ''react''] example_options)"

definition example_inject :: "EndpointBuilder \<Rightarrow> (string \<times> EndpointDefinition) list" where
  "example_inject b =
     [(''getPosts'', query b (example_definition ''posts/v2'')),
      (''getUser'', mutation b (example_definition ''user''))]"

text \<open>A \<open>QueryArgsApi\<close> for \<open>getPosts\<close>, with or without a \<open>serializeQueryArgs\<close> of its own.\<close>

definition example_queryArgsApi :: "js_value option \<Rightarrow> js_value \<Rightarrow> QueryArgsApi" where
  "example_queryArgsApi sqa args =
     \<lparr> queryArgs = args,
       endpointDefinition = (query build (example_definition ''posts''))\<lparr>ed_serializeQueryArgs := sqa\<rparr>,
       endpointName = ''getPosts'' \<rparr>"

text \<open>
  The tags of a list in the order of their first occurrence, each once: what a loop that
  appends a tag unless it is already there adds to an empty list.
\<close>

fun first_occurrences :: "'a list \<Rightarrow> 'a list" where
  "first_occurrences [] = []"
| "first_occurrences (x # xs) = x # first_occurrences (filter (\<lambda>y. y \<noteq> x) xs)"

text \<open>
  What the two caches hold in every state of an api: a cached answer of
  \<open>hasRehydrationInfo\<close> is the answer for the cached result of \<open>extractRehydrationInfo\<close>,
  and without an \<open>extractRehydrationInfo\<close> option every cached result is \<open>undefined\<close>.
\<close>

definition rehydration_caches_ok ::
  "('s, 'a \<Rightarrow> string \<Rightarrow> 'w \<Rightarrow> js_value) CreateApiOptions \<Rightarrow> ('m, 'a) ApiState \<Rightarrow> bool" where
  "rehydration_caches_ok options s =
     ((\<forall>action b. has_cache s action = Some b \<longrightarrow>
          (\<exists>r. extract_cache s action = Some r \<and> b = not_nullish r))
      \<and> ((\<forall>f. opt_extractRehydrationInfo options \<noteq> Val f) \<longrightarrow>
          (\<forall>action r. extract_cache s action = Some r \<longrightarrow> r = JUndefined)))"

text \<open>
  A development build, and options whose only endpoint is an infinite query with
  \<open>maxPages: 0\<close>.
\<close>

definition example_dev_env :: env where
  "example_dev_env = example_env\<lparr>development := True\<rparr>"

definition example_infinite_definition :: "js_value \<Rightarrow> js_value \<Rightarrow> EndpointDefinition" where
  "example_infinite_definition pages previous =
     (example_definition ''feed'')
       \<lparr> ed_infiniteQueryOptions :=
           Some \<lparr> maxPages = pages, getPreviousPageParam = previous,
                  iqo_other = [(''initialPageParam'', JNumber 1)] \<rparr> \<rparr>"

definition example_feed_options ::
  "(QueryArgsApi \<Rightarrow> js_value, nat \<Rightarrow> string \<Rightarrow> (nat \<Rightarrow> js_value) \<Rightarrow> js_value) CreateApiOptions" where
  "example_feed_options =
     example_options
       \<lparr> endpoints := (\<lambda>b.
           [(''feed'', infiniteQuery b (example_infinite_definition (JNumber 0) JUndefined))]) \<rparr>"

text \<open>
  Options with two infinite queries: \<open>feed\<close> with \<open>maxPages: 2\<close> and a
  \<open>getPreviousPageParam\<close> function, and one named \<open>toString\<close> with \<open>maxPages: 0\<close>.
\<close>

definition example_pages_options ::
  "(QueryArgsApi \<Rightarrow> js_value, nat \<Rightarrow> string \<Rightarrow> (nat \<Rightarrow> js_value) \<Rightarrow> js_value) CreateApiOptions" where
  "example_pages_options =
     example_options
       \<lparr> endpoints := (\<lambda>b.
           [(''feed'', infiniteQuery b (example_infinite_definition (JNumber 2) (JFunction 2))),
            (''toString'', infiniteQuery b (example_infinite_definition (JNumber 0) JUndefined))]) \<rparr>"

text \<open>Endpoints whose only name is \<open>__proto__\<close>, and endpoints whose only name is \<open>query\<close>.\<close>

definition example_proto_inject :: "EndpointBuilder \<Rightarrow> (string \<times> EndpointDefinition) list" where
  "example_proto_inject b = [(''__proto__'', query b (example_definition ''proto''))]"

definition example_query_inject :: "EndpointBuilder \<Rightarrow> (string \<times> EndpointDefinition) list" where
  "example_query_inject b = [(''query'', mutation b (example_definition ''search''))]"

section \<open>The loop of injectEndpoints\<close>

lemma assign_definition_fields:
  "api (assign_definition n d s) = api s"
  "optionsWithDefaults (assign_definition n d s) = optionsWithDefaults s"
  "initializedModules (assign_definition n d s) = initializedModules s"
  "extract_cache (assign_definition n d s) = extract_cache s"
  "has_cache (assign_definition n d s) = has_cache s"
  "calls (assign_definition n d s) = calls s"
  "console (assign_definition n d s) = console s"
  "Object_prototype (assign_definition n d s) = Object_prototype s"
  "apiUid (api_context (assign_definition n d s)) = apiUid (api_context s)"
  by (simp_all add: assign_definition_def)

text \<open>A name that is not in the registry is assigned as an own key.\<close>

lemma assign_definition_new:
  "\<not> has_property n s \<Longrightarrow>
   assign_definition n d s =
     s\<lparr>api_context := (api_context s)
         \<lparr>endpointDefinitions := (endpointDefinitions (api_context s))(n \<mapsto> d)\<rparr>\<rparr>"
  by (auto simp: assign_definition_def has_property_def reaches_proto_accessor_def
                 inherited_properties_def)

lemma assign_definition_other:
  "k \<noteq> n \<Longrightarrow>
   endpointDefinitions (api_context (assign_definition k d s)) n
     = endpointDefinitions (api_context s) n"
  by (simp add: assign_definition_def)

lemma assign_definition_own:
  "n \<noteq> ''__proto__'' \<or> ''__proto__'' \<notin> set (definition_keys (Object_prototype s)) \<Longrightarrow>
   endpointDefinitions (api_context (assign_definition n d s)) n = Some d"
  by (auto simp: assign_definition_def reaches_proto_accessor_def)

lemma inject_loop_modules:
  "initializedModules (snd (inject_loop e oe es s)) = initializedModules s"
  by (induction es arbitrary: s) (auto split: option.splits simp: assign_definition_fields)

lemma inject_loop_api:
  "api (snd (inject_loop e oe es s)) = api s"
  by (induction es arbitrary: s) (auto split: option.splits simp: assign_definition_fields)

lemma inject_loop_optionsWithDefaults:
  "optionsWithDefaults (snd (inject_loop e oe es s)) = optionsWithDefaults s"
  by (induction es arbitrary: s) (auto split: option.splits simp: assign_definition_fields)

lemma inject_loop_caches:
  "extract_cache (snd (inject_loop e oe es s)) = extract_cache s
   \<and> has_cache (snd (inject_loop e oe es s)) = has_cache s"
  by (induction es arbitrary: s) (auto split: option.splits simp: assign_definition_fields)

lemma inject_loop_Object_prototype:
  "Object_prototype (snd (inject_loop e oe es s)) = Object_prototype s"
  by (induction es arbitrary: s) (auto split: option.splits simp: assign_definition_fields)

text \<open>The three ways an iteration ends.\<close>

lemma inject_loop_Cons_cases:
  obtains (stop) "snd (inject_loop e oe ((k, v) # es) s) = s"
      and "\<exists>err. fst (inject_loop e oe ((k, v) # es) s) = Inl err"
    | (skip) "oe \<noteq> JBool True" and "has_property k s" and "oe \<noteq> JString ''throw''"
      and "inject_loop e oe ((k, v) # es) s
             = inject_loop e oe es
                 (if development e then s\<lparr>console := console s @ [override_message k]\<rparr> else s)"
    | (store) "oe = JBool True \<or> \<not> has_property k s"
      and "(if development e then check_infiniteQueryOptions e k v else None) = None"
      and "inject_loop e oe ((k, v) # es) s
             = inject_loop e oe es
                 ((assign_definition k v s)
                    \<lparr>calls := calls s @ map (\<lambda>m. InjectEndpoint m k v) (initializedModules s)\<rparr>)"
  by (cases "oe \<noteq> JBool True \<and> has_property k s";
      cases "oe = JString ''throw''";
      cases "if development e then check_infiniteQueryOptions e k v else None") auto

lemma accepted_Cons:
  "accepted oe defs inh ((k, v) # es) =
     (if oe = JBool True \<or> (defs k = None \<and> k \<notin> set inh) then (k, v) # accepted oe defs inh es
      else accepted oe defs inh es)"
  by (simp add: accepted_def)

lemma accepted_subset: "set (accepted oe defs inh es) \<subseteq> set es"
  by (auto simp: accepted_def)

lemma accepted_upd:
  "k \<notin> fst ` set es \<Longrightarrow> accepted oe (defs(k \<mapsto> v)) inh es = accepted oe defs inh es"
  unfolding accepted_def
  by (rule filter_cong) force+

lemma accepted_True: "accepted (JBool True) defs inh es = es"
  by (simp add: accepted_def)

lemma not_has_property:
  "(\<not> has_property k s)
     = (endpointDefinitions (api_context s) k = None \<and> k \<notin> set (inherited_properties s))"
  by (simp add: has_property_def)

text \<open>
  An iteration leaves the test of the later entries as it is: it changes the inherited
  names only when \<open>overrideExisting\<close> is true, and then the test is not made.
\<close>

lemma inherited_properties_skip:
  "inherited_properties (if development e then s\<lparr>console := console s @ [msg]\<rparr> else s)
     = inherited_properties s"
  by (simp add: inherited_properties_def)

lemma accepted_store:
  assumes "oe = JBool True \<or> \<not> has_property k s" and "k \<notin> fst ` set es"
  shows "accepted oe
           (endpointDefinitions (api_context
              ((assign_definition k v s)\<lparr>calls := cs\<rparr>)))
           (inherited_properties ((assign_definition k v s)\<lparr>calls := cs\<rparr>)) es
         = accepted oe (endpointDefinitions (api_context s)) (inherited_properties s) es"
proof (cases "oe = JBool True")
  case True
  then show ?thesis by (simp add: accepted_True)
next
  case False
  with assms have "\<not> has_property k s" by simp
  then show ?thesis
    using accepted_upd[OF assms(2)]
    by (simp add: assign_definition_new inherited_properties_def)
qed

text \<open>
  A run that returns has logged the calls of the entries it did not skip, module by
  module. Unless \<open>overrideExisting\<close> is true it has added exactly these entries to the own
  keys of the registry and left its prototype as it was.
\<close>

lemma inject_loop_returns:
  "inject_loop e oe es s = (Inr u, s') \<Longrightarrow> distinct (map fst es) \<Longrightarrow>
     calls s' = calls s
        @ concat (map (\<lambda>(n, d). map (\<lambda>m. InjectEndpoint m n d) (initializedModules s))
                    (accepted oe (endpointDefinitions (api_context s)) (inherited_properties s) es))
   \<and> (oe \<noteq> JBool True \<longrightarrow>
        endpointDefinitions (api_context s') =
          endpointDefinitions (api_context s)
            ++ map_of (accepted oe (endpointDefinitions (api_context s))
                         (inherited_properties s) es)
        \<and> endpointDefinitions_prototype s' = endpointDefinitions_prototype s)"
proof (induction es arbitrary: s)
  case Nil
  then show ?case by (simp add: accepted_def)
next
  case (Cons x es)
  obtain k v where x: "x = (k, v)" by (cases x)
  from Cons.prems x have fresh: "k \<notin> fst ` set es" and dist: "distinct (map fst es)" by auto
  let ?own = "endpointDefinitions (api_context s)"
  let ?inh = "inherited_properties s"
  let ?log = "\<lambda>acc. concat (map (\<lambda>(n, d). map (\<lambda>m. InjectEndpoint m n d) (initializedModules s)) acc)"
  show ?case
  proof (cases rule: inject_loop_Cons_cases[of e oe k v es s])
    case stop
    with Cons.prems x show ?thesis by simp
  next
    case skip
    let ?s1 = "if development e then s\<lparr>console := console s @ [override_message k]\<rparr> else s"
    from Cons.prems x skip(4) have run: "inject_loop e oe es ?s1 = (Inr u, s')" by simp
    have same: "calls ?s1 = calls s" "endpointDefinitions (api_context ?s1) = ?own"
      "initializedModules ?s1 = initializedModules s"
      "endpointDefinitions_prototype ?s1 = endpointDefinitions_prototype s"
      "inherited_properties ?s1 = ?inh" by (auto simp: inherited_properties_def)
    from skip(1,2) have acc: "accepted oe ?own ?inh (x # es) = accepted oe ?own ?inh es"
      by (auto simp: x accepted_Cons has_property_def)
    from Cons.IH[OF run dist] show ?thesis
      unfolding same acc .
  next
    case store
    let ?s1 = "(assign_definition k v s)
                 \<lparr>calls := calls s @ map (\<lambda>m. InjectEndpoint m k v) (initializedModules s)\<rparr>"
    from Cons.prems x store(3) have run: "inject_loop e oe es ?s1 = (Inr u, s')" by simp
    from store(1) have acc: "accepted oe ?own ?inh (x # es) = (k, v) # accepted oe ?own ?inh es"
      by (auto simp: x accepted_Cons has_property_def)
    have sel: "calls ?s1 = calls s @ map (\<lambda>m. InjectEndpoint m k v) (initializedModules s)"
      "initializedModules ?s1 = initializedModules s"
      by (simp_all add: assign_definition_fields)
    note ih = Cons.IH[OF run dist, unfolded accepted_store[OF store(1) fresh] sel]
    from ih have calls: "calls s' = calls s @ ?log (accepted oe ?own ?inh (x # es))"
      unfolding acc by simp
    have reg: "endpointDefinitions (api_context s') = ?own ++ map_of (accepted oe ?own ?inh (x # es))
               \<and> endpointDefinitions_prototype s' = endpointDefinitions_prototype s"
      if oe: "oe \<noteq> JBool True"
    proof -
      from oe store(1) have new: "\<not> has_property k s" by simp
      have own1: "endpointDefinitions (api_context ?s1) = ?own(k \<mapsto> v)"
        and proto1: "endpointDefinitions_prototype ?s1 = endpointDefinitions_prototype s"
        by (simp_all add: assign_definition_new[OF new])
      have notin: "k \<notin> dom (map_of (accepted oe ?own ?inh es))"
        using fresh accepted_subset[of oe ?own ?inh es]
        by (auto simp: dom_map_of_conv_image_fst)
      have upd: "?own(k \<mapsto> v) ++ map_of (accepted oe ?own ?inh es)
                   = ?own ++ (map_of (accepted oe ?own ?inh es))(k \<mapsto> v)"
        using notin by (auto simp: map_add_def fun_eq_iff split: option.splits)
      from ih oe have "endpointDefinitions (api_context s')
                         = endpointDefinitions (api_context ?s1)
                             ++ map_of (accepted oe ?own ?inh es)"
        and "endpointDefinitions_prototype s' = endpointDefinitions_prototype ?s1" by blast+
      then show ?thesis unfolding own1 proto1 acc upd by simp
    qed
    from calls reg show ?thesis by blast
  qed
qed

text \<open>An own key whose name is not among the entries is left as it is.\<close>

lemma inject_loop_other_names:
  "n \<notin> fst ` set es \<Longrightarrow>
   endpointDefinitions (api_context (snd (inject_loop e oe es s))) n
     = endpointDefinitions (api_context s) n"
proof (induction es arbitrary: s)
  case Nil
  then show ?case by simp
next
  case (Cons x es)
  obtain k v where x: "x = (k, v)" by (cases x)
  with Cons.prems have kn: "k \<noteq> n" and rest: "n \<notin> fst ` set es" by auto
  show ?case
  proof (cases rule: inject_loop_Cons_cases[of e oe k v es s])
    case stop
    then show ?thesis by (simp add: x)
  next
    case skip
    show ?thesis unfolding x skip(4) Cons.IH[OF rest] by simp
  next
    case store
    show ?thesis unfolding x store(3) Cons.IH[OF rest]
      by (simp add: assign_definition_other[OF kn])
  qed
qed

text \<open>
  A run that returns has stored every entry it did not skip under its name, as an own
  key, when the name is not \<open>__proto__\<close> (or \<open>Object.prototype\<close> has lost its accessor).
\<close>

lemma inject_loop_stores:
  "inject_loop e oe es s = (Inr u, s') \<Longrightarrow> distinct (map fst es) \<Longrightarrow>
   (n, d) \<in> set (accepted oe (endpointDefinitions (api_context s)) (inherited_properties s) es) \<Longrightarrow>
   n \<noteq> ''__proto__'' \<or> ''__proto__'' \<notin> set (definition_keys (Object_prototype s)) \<Longrightarrow>
   endpointDefinitions (api_context s') n = Some d"
proof (induction es arbitrary: s)
  case Nil
  then show ?case by (simp add: accepted_def)
next
  case (Cons x es)
  obtain k v where x: "x = (k, v)" by (cases x)
  from Cons.prems x have fresh: "k \<notin> fst ` set es" and dist: "distinct (map fst es)" by auto
  let ?own = "endpointDefinitions (api_context s)"
  let ?inh = "inherited_properties s"
  show ?case
  proof (cases rule: inject_loop_Cons_cases[of e oe k v es s])
    case stop
    with Cons.prems x show ?thesis by simp
  next
    case skip
    let ?s1 = "if development e then s\<lparr>console := console s @ [override_message k]\<rparr> else s"
    from Cons.prems x skip(4) have run: "inject_loop e oe es ?s1 = (Inr u, s')" by simp
    from skip(1,2) Cons.prems(3) have "(n, d) \<in> set (accepted oe ?own ?inh es)"
      by (auto simp: x accepted_Cons has_property_def)
    moreover have "endpointDefinitions (api_context ?s1) = ?own"
      "inherited_properties ?s1 = ?inh" by (auto simp: inherited_properties_def)
    ultimately have "(n, d) \<in> set (accepted oe (endpointDefinitions (api_context ?s1))
                                 (inherited_properties ?s1) es)"
      by simp
    moreover have "n \<noteq> ''__proto__'' \<or> ''__proto__'' \<notin> set (definition_keys (Object_prototype ?s1))"
      using Cons.prems(4) by auto
    ultimately show ?thesis by (rule Cons.IH[OF run dist])
  next
    case store
    let ?s1 = "(assign_definition k v s)
                 \<lparr>calls := calls s @ map (\<lambda>m. InjectEndpoint m k v) (initializedModules s)\<rparr>"
    from Cons.prems x store(3) have run: "inject_loop e oe es ?s1 = (Inr u, s')" by simp
    then have s': "s' = snd (inject_loop e oe es ?s1)" by simp
    show ?thesis
    proof (cases "(n, d) = (k, v)")
      case True
      with fresh have "n \<notin> fst ` set es" by simp
      from inject_loop_other_names[OF this, of e oe ?s1] True Cons.prems(4)
      show ?thesis unfolding s' by (simp add: assign_definition_own)
    next
      case False
      with Cons.prems(3) have "(n, d) \<in> set (accepted oe ?own ?inh es)"
        by (auto simp: x accepted_Cons split: if_splits)
      then have "(n, d) \<in> set (accepted oe (endpointDefinitions (api_context ?s1))
                                   (inherited_properties ?s1) es)"
        unfolding accepted_store[OF store(1) fresh] .
      moreover have "n \<noteq> ''__proto__''
                     \<or> ''__proto__'' \<notin> set (definition_keys (Object_prototype ?s1))"
        using Cons.prems(4) by (simp add: assign_definition_fields)
      ultimately show ?thesis by (rule Cons.IH[OF run dist])
    qed
  qed
qed

text \<open>
  Without \<open>overrideExisting: 'throw'\<close> a run returns exactly when, in a development build,
  the check passes on every entry that is not skipped.
\<close>

lemma inject_loop_returns_iff:
  "oe \<noteq> JString ''throw'' \<Longrightarrow> distinct (map fst es) \<Longrightarrow>
   (fst (inject_loop e oe es s) = Inr ())
     = (\<forall>(n, d) \<in> set (accepted oe (endpointDefinitions (api_context s))
                           (inherited_properties s) es).
          development e \<longrightarrow> check_infiniteQueryOptions e n d = None)"
proof (induction es arbitrary: s)
  case Nil
  then show ?case by (simp add: accepted_def)
next
  case (Cons x es)
  obtain k v where x: "x = (k, v)" by (cases x)
  from Cons.prems x have fresh: "k \<notin> fst ` set es" and dist: "distinct (map fst es)" by auto
  let ?own = "endpointDefinitions (api_context s)"
  let ?inh = "inherited_properties s"
  show ?case
  proof (cases "oe \<noteq> JBool True \<and> has_property k s")
    case True
    let ?s1 = "if development e then s\<lparr>console := console s @ [override_message k]\<rparr> else s"
    from True Cons.prems(1) have step:
      "inject_loop e oe (x # es) s = inject_loop e oe es ?s1" by (simp add: x)
    from True have acc: "accepted oe ?own ?inh (x # es) = accepted oe ?own ?inh es"
      by (auto simp: x accepted_Cons has_property_def)
    have same: "endpointDefinitions (api_context ?s1) = ?own"
      "inherited_properties ?s1 = ?inh" by (auto simp: inherited_properties_def)
    show ?thesis
      unfolding step acc Cons.IH[OF Cons.prems(1) dist, of ?s1] same ..
  next
    case False
    then have new: "oe = JBool True \<or> \<not> has_property k s" by blast
    then have acc: "accepted oe ?own ?inh (x # es) = (k, v) # accepted oe ?own ?inh es"
      by (auto simp: x accepted_Cons has_property_def)
    have body: "inject_loop e oe (x # es) s =
        (case (if development e then check_infiniteQueryOptions e k v else None) of
           Some err \<Rightarrow> (Inl err, s)
         | None \<Rightarrow>
             inject_loop e oe es
               ((assign_definition k v s)
                  \<lparr>calls := calls s @ map (\<lambda>m. InjectEndpoint m k v) (initializedModules s)\<rparr>))"
      by (simp only: x inject_loop.simps if_not_P[OF False])
    show ?thesis
    proof (cases "if development e then check_infiniteQueryOptions e k v else None")
      case (Some err)
      then have "fst (inject_loop e oe (x # es) s) = Inl err" by (simp add: body)
      moreover from Some have "development e" "check_infiniteQueryOptions e k v \<noteq> None"
        by (auto split: if_splits)
      ultimately show ?thesis unfolding acc by auto
    next
      case None
      let ?s1 = "(assign_definition k v s)
                   \<lparr>calls := calls s @ map (\<lambda>m. InjectEndpoint m k v) (initializedModules s)\<rparr>"
      from None have step: "inject_loop e oe (x # es) s = inject_loop e oe es ?s1"
        by (simp add: body)
      from None have ok: "development e \<longrightarrow> check_infiniteQueryOptions e k v = None"
        by (auto split: if_splits)
      show ?thesis
        unfolding step acc Cons.IH[OF Cons.prems(1) dist, of ?s1]
          accepted_store[OF new fresh]
        using ok by simp
    qed
  qed
qed

text \<open>A run that throws without \<open>overrideExisting: 'throw'\<close> throws the error of a check.\<close>

lemma inject_loop_throw_is_check:
  "oe \<noteq> JString ''throw'' \<Longrightarrow> fst (inject_loop e oe es s) = Inl err \<Longrightarrow>
   development e
   \<and> (\<exists>(n, d) \<in> set es. check_infiniteQueryOptions e n d = Some err
         \<and> (oe = JBool True \<or> n \<notin> set (definition_keys (Object_prototype s))))"
proof (induction es arbitrary: s)
  case Nil
  then show ?case by simp
next
  case (Cons x es)
  obtain k v where x: "x = (k, v)" by (cases x)
  show ?case
  proof (cases "oe \<noteq> JBool True \<and> has_property k s")
    case True
    let ?s1 = "if development e then s\<lparr>console := console s @ [override_message k]\<rparr> else s"
    from True Cons.prems have "fst (inject_loop e oe es ?s1) = Inl err" by (simp add: x)
    from Cons.IH[OF Cons.prems(1) this] show ?thesis by auto
  next
    case False
    then have new: "oe = JBool True \<or> k \<notin> set (definition_keys (Object_prototype s))"
      by (auto simp: has_property_def inherited_properties_def)
    have body: "inject_loop e oe (x # es) s =
        (case (if development e then check_infiniteQueryOptions e k v else None) of
           Some err \<Rightarrow> (Inl err, s)
         | None \<Rightarrow>
             inject_loop e oe es
               ((assign_definition k v s)
                  \<lparr>calls := calls s @ map (\<lambda>m. InjectEndpoint m k v) (initializedModules s)\<rparr>))"
      by (simp only: x inject_loop.simps if_not_P[OF False])
    show ?thesis
    proof (cases "if development e then check_infiniteQueryOptions e k v else None")
      case (Some err')
      with Cons.prems(2) have "err' = err" by (simp add: body)
      with Some have dev: "development e" and chk: "check_infiniteQueryOptions e k v = Some err"
        by (auto split: if_splits)
      have "(k, v) \<in> set (x # es)" by (simp add: x)
      with chk new have "\<exists>(n, d) \<in> set (x # es). check_infiniteQueryOptions e n d = Some err
         \<and> (oe = JBool True \<or> n \<notin> set (definition_keys (Object_prototype s)))"
        by blast
      with dev show ?thesis by blast
    next
      case None
      let ?s1 = "(assign_definition k v s)
                   \<lparr>calls := calls s @ map (\<lambda>m. InjectEndpoint m k v) (initializedModules s)\<rparr>"
      from None Cons.prems have "fst (inject_loop e oe es ?s1) = Inl err" by (simp add: body)
      from Cons.IH[OF Cons.prems(1) this] show ?thesis
        by (auto simp: assign_definition_fields)
    qed
  qed
qed

text \<open>A definition registered before the call survives it unless \<open>overrideExisting\<close> is true.\<close>

lemma inject_loop_keeps:
  "oe \<noteq> JBool True \<Longrightarrow> endpointDefinitions (api_context s) n = Some d \<Longrightarrow>
   endpointDefinitions (api_context (snd (inject_loop e oe es s))) n = Some d"
proof (induction es arbitrary: s)
  case Nil
  then show ?case by simp
next
  case (Cons x es)
  obtain k v where x: "x = (k, v)" by (cases x)
  show ?case
  proof (cases rule: inject_loop_Cons_cases[of e oe k v es s])
    case stop
    with Cons.prems show ?thesis by (simp add: x)
  next
    case skip
    let ?s1 = "if development e then s\<lparr>console := console s @ [override_message k]\<rparr> else s"
    have "endpointDefinitions (api_context ?s1) n = Some d" using Cons.prems by simp
    from Cons.IH[OF Cons.prems(1) this] show ?thesis unfolding x skip(4) .
  next
    case store
    let ?s1 = "(assign_definition k v s)
                 \<lparr>calls := calls s @ map (\<lambda>m. InjectEndpoint m k v) (initializedModules s)\<rparr>"
    from store(1) Cons.prems have "k \<noteq> n" by (auto simp: has_property_def)
    then have "endpointDefinitions (api_context ?s1) n = Some d"
      using Cons.prems by (simp add: assign_definition_other)
    from Cons.IH[OF Cons.prems(1) this] show ?thesis unfolding x store(3) .
  qed
qed

lemma inject_loop_no_call:
  "oe \<noteq> JBool True \<Longrightarrow> endpointDefinitions (api_context s) n = Some d0 \<Longrightarrow>
   \<exists>new. calls (snd (inject_loop e oe es s)) = calls s @ new
         \<and> (\<forall>m d. InjectEndpoint m n d \<notin> set new)"
proof (induction es arbitrary: s)
  case Nil
  then show ?case by simp
next
  case (Cons x es)
  obtain k v where x: "x = (k, v)" by (cases x)
  show ?case
  proof (cases rule: inject_loop_Cons_cases[of e oe k v es s])
    case stop
    then show ?thesis by (simp add: x)
  next
    case skip
    let ?s1 = "if development e then s\<lparr>console := console s @ [override_message k]\<rparr> else s"
    have "endpointDefinitions (api_context ?s1) n = Some d0" using Cons.prems by simp
    from Cons.IH[OF Cons.prems(1) this] have
      "\<exists>new. calls (snd (inject_loop e oe es ?s1)) = calls ?s1 @ new
           \<and> (\<forall>m d. InjectEndpoint m n d \<notin> set new)" .
    moreover have "calls ?s1 = calls s" by simp
    ultimately show ?thesis unfolding x skip(4) by simp
  next
    case store
    let ?s1 = "(assign_definition k v s)
                 \<lparr>calls := calls s @ map (\<lambda>m. InjectEndpoint m k v) (initializedModules s)\<rparr>"
    from store(1) Cons.prems have kn: "k \<noteq> n" by (auto simp: has_property_def)
    then have "endpointDefinitions (api_context ?s1) n = Some d0"
      using Cons.prems by (simp add: assign_definition_other)
    from Cons.IH[OF Cons.prems(1) this] obtain new where
      new: "calls (snd (inject_loop e oe es ?s1)) = calls ?s1 @ new"
           "\<forall>m d. InjectEndpoint m n d \<notin> set new" by blast
    have "calls (snd (inject_loop e oe (x # es) s))
            = calls s @ (map (\<lambda>m. InjectEndpoint m k v) (initializedModules s) @ new)"
      using new(1) unfolding x store(3) by simp
    moreover have "\<forall>m d. InjectEndpoint m n d
                     \<notin> set (map (\<lambda>m. InjectEndpoint m k v) (initializedModules s) @ new)"
      using new(2) kn by auto
    ultimately show ?thesis by blast
  qed
qed

text \<open>With \<open>overrideExisting: 'throw'\<close>, one registered name among the entries is enough for a throw.\<close>

lemma inject_loop_throws:
  "(n, d) \<in> set es \<Longrightarrow> endpointDefinitions (api_context s) n \<noteq> None \<Longrightarrow>
   \<exists>err. fst (inject_loop e (JString ''throw'') es s) = Inl err"
proof (induction es arbitrary: s)
  case Nil
  then show ?case by simp
next
  case (Cons x es)
  obtain k v where x: "x = (k, v)" by (cases x)
  show ?case
  proof (cases rule: inject_loop_Cons_cases[of e "JString ''throw''" k v es s])
    case stop
    then show ?thesis by (simp add: x)
  next
    case skip
    then show ?thesis by simp
  next
    case store
    let ?s1 = "(assign_definition k v s)
                 \<lparr>calls := calls s @ map (\<lambda>m. InjectEndpoint m k v) (initializedModules s)\<rparr>"
    from store(1) Cons.prems have kn: "k \<noteq> n" by (auto simp: has_property_def)
    with Cons.prems x have mem: "(n, d) \<in> set es" by auto
    have "endpointDefinitions (api_context ?s1) n \<noteq> None"
      using Cons.prems kn by (simp add: assign_definition_other)
    from Cons.IH[OF mem this] show ?thesis unfolding x store(3) .
  qed
qed

lemma count_list_map_InjectEndpoint:
  "count_list (map (\<lambda>m. InjectEndpoint m n' d') mods) (InjectEndpoint m n d)
     = (if n' = n \<and> d' = d then count_list mods m else 0)"
  by (induction mods) auto

lemma count_list_accepted_calls:
  "distinct (map fst acc) \<Longrightarrow> (n, d) \<in> set acc \<Longrightarrow>
   count_list (concat (map (\<lambda>(n, d). map (\<lambda>m. InjectEndpoint m n d) mods) acc))
     (InjectEndpoint m n d) = count_list mods m"
proof (induction acc)
  case Nil
  then show ?case by simp
next
  case (Cons x acc)
  obtain k v where x: "x = (k, v)" by (cases x)
  show ?case
  proof (cases "(n, d) = (k, v)")
    case True
    with Cons.prems x have "n \<notin> fst ` set acc" by auto
    then have "count_list (concat (map (\<lambda>(n, d). map (\<lambda>m. InjectEndpoint m n d) mods) acc))
                 (InjectEndpoint m n d) = 0"
      by (induction acc) (auto simp: count_list_map_InjectEndpoint)
    with True show ?thesis by (simp add: x count_list_map_InjectEndpoint)
  next
    case False
    with Cons.prems x have mem: "(n, d) \<in> set acc" and kn: "k \<noteq> n"
      by (auto simp: image_iff)
    with Cons show ?thesis by (simp add: x count_list_map_InjectEndpoint)
  qed
qed

lemma injectEndpoints_loop:
  "injectEndpoints e inject_endpoints oe s = (r, s') \<Longrightarrow>
     s' = snd (inject_loop e oe (inject_endpoints build) s)
   \<and> (case fst (inject_loop e oe (inject_endpoints build) s) of
         Inl err \<Rightarrow> r = Inl err | Inr u \<Rightarrow> r = Inr (api s))"
  by (cases "inject_loop e oe (inject_endpoints build) s")
     (auto simp: injectEndpoints_def Let_def split: sum.splits
           dest: arg_cong[where f = "\<lambda>p. api (snd p)"] simp: inject_loop_api)

lemma inject_loop_calls_inject:
  "\<exists>new. calls (snd (inject_loop e oe es s)) = calls s @ new
         \<and> (\<forall>c \<in> set new. \<exists>m n d. c = InjectEndpoint m n d)"
proof (induction es arbitrary: s)
  case Nil
  then show ?case by simp
next
  case (Cons x es)
  obtain k v where x: "x = (k, v)" by (cases x)
  show ?case
  proof (cases rule: inject_loop_Cons_cases[of e oe k v es s])
    case stop
    then show ?thesis by (simp add: x)
  next
    case skip
    let ?skip = "if development e then s\<lparr>console := console s @ [override_message k]\<rparr> else s"
    from Cons.IH[of ?skip] obtain new where
      "calls (snd (inject_loop e oe es ?skip)) = calls ?skip @ new"
      "\<forall>c \<in> set new. \<exists>m n d. c = InjectEndpoint m n d" by blast
    moreover have "calls ?skip = calls s" by simp
    ultimately show ?thesis unfolding x skip(4) by auto
  next
    case store
    let ?store = "(assign_definition k v s)
                 \<lparr>calls := calls s @ map (\<lambda>m. InjectEndpoint m k v) (initializedModules s)\<rparr>"
    from Cons.IH[of ?store] obtain new where new:
      "calls (snd (inject_loop e oe es ?store)) = calls ?store @ new"
      "\<forall>c \<in> set new. \<exists>m n d. c = InjectEndpoint m n d" by blast
    have "calls (snd (inject_loop e oe (x # es) s))
            = calls s @ (map (\<lambda>m. InjectEndpoint m k v) (initializedModules s) @ new)"
      using new(1) unfolding x store(3) by simp
    moreover have "\<forall>c \<in> set (map (\<lambda>m. InjectEndpoint m k v) (initializedModules s) @ new).
                     \<exists>m n d. c = InjectEndpoint m n d"
      using new(2) by auto
    ultimately show ?thesis by blast
  qed
qed

lemma baseCreateApi_start:
  "baseCreateApi e api_object modules options =
     injectEndpoints e (endpoints options) JUndefined
       (created e api_object modules (make_optionsWithDefaults e options))"
  by (simp add: baseCreateApi_def created_def Let_def)

lemma created_fields:
  "api (created e api_object modules owd) = api_object"
  "optionsWithDefaults (created e api_object modules owd) = owd"
  "endpointDefinitions (api_context (created e api_object modules owd)) = Map.empty"
  "endpointDefinitions_prototype (created e api_object modules owd) = None"
  "Object_prototype (created e api_object modules owd) = initial_Object_prototype"
  "initializedModules (created e api_object modules owd) = modules"
  "extract_cache (created e api_object modules owd) = Map.empty"
  "has_cache (created e api_object modules owd) = Map.empty"
  "calls (created e api_object modules owd)
     = map (\<lambda>m. Init m api_object owd
                  \<lparr>endpointDefinitions = Map.empty, apiUid = nanoid e\<rparr>) modules"
  by (simp_all add: created_def)

lemma definition_keys_initial_Object_prototype:
  "definition_keys initial_Object_prototype = Object_prototype_properties"
  by (simp add: definition_keys_def initial_Object_prototype_def comp_def)

lemma inherited_properties_created:
  "inherited_properties (created e api_object modules owd) = Object_prototype_properties"
  by (simp add: inherited_properties_def created_fields definition_keys_initial_Object_prototype)

lemma baseCreateApi_calls:
  assumes "baseCreateApi e api_object modules options = (r, s')"
  shows "\<exists>new. calls s' =
           map (\<lambda>m. Init m api_object (make_optionsWithDefaults e options)
                      \<lparr>endpointDefinitions = Map.empty, apiUid = nanoid e\<rparr>) modules @ new
         \<and> (\<forall>c \<in> set new. \<exists>m n d. c = InjectEndpoint m n d)"
proof -
  from injectEndpoints_loop[OF assms[unfolded baseCreateApi_start]]
  have "s' = snd (inject_loop e JUndefined (endpoints options build)
                    (created e api_object modules (make_optionsWithDefaults e options)))"
    by blast
  with inject_loop_calls_inject[of e JUndefined "endpoints options build"
         "created e api_object modules (make_optionsWithDefaults e options)"]
  show ?thesis by (simp add: created_fields)
qed

section \<open>The loop of enhanceEndpoints over the tag types\<close>

lemma addTagTypes_loop_eq:
  "addTagTypes_loop tags ts = ts @ first_occurrences (filter (\<lambda>t. t \<notin> set ts) tags)"
proof (induction tags arbitrary: ts)
  case Nil
  then show ?case by simp
next
  case (Cons eT rest)
  show ?case
  proof (cases "eT \<in> set ts")
    case True
    with Cons show ?thesis by simp
  next
    case False
    have "filter (\<lambda>t. t \<notin> set (ts @ [eT])) rest
            = filter (\<lambda>y. y \<noteq> eT) (filter (\<lambda>t. t \<notin> set ts) rest)"
      by (auto intro: filter_cong)
    with False Cons[of "ts @ [eT]"] show ?thesis by simp
  qed
qed

lemma set_first_occurrences: "set (first_occurrences xs) = set xs"
  by (induction xs rule: first_occurrences.induct) auto

lemma distinct_first_occurrences: "distinct (first_occurrences xs)"
  by (induction xs rule: first_occurrences.induct) (auto simp: set_first_occurrences)

lemma first_occurrences_distinct: "distinct xs \<Longrightarrow> first_occurrences xs = xs"
proof (induction xs)
  case Nil
  then show ?case by simp
next
  case (Cons x xs)
  then have "filter (\<lambda>y. y \<noteq> x) xs = xs" by (auto intro: filter_True)
  with Cons show ?case by simp
qed

section \<open>The two memoized functions\<close>

lemma extractRehydrationInfo_cached:
  "extract_cache s action = Some r \<Longrightarrow> extractRehydrationInfo options w action s = (r, s)"
  by (simp add: extractRehydrationInfo_def weakMapMemoize_def)

lemma extractRehydrationInfo_result:
  assumes "extractRehydrationInfo options w action s = (r, s1)"
  shows "extract_cache s1 = (extract_cache s)(action \<mapsto> r)"
    and "has_cache s1 = has_cache s"
    and "extract_cache s action = None \<Longrightarrow>
           r = (case opt_extractRehydrationInfo options of
                  Val f \<Rightarrow> f action (case reducerPath options of Val p \<Rightarrow> p | _ \<Rightarrow> ''api'') w
                | _ \<Rightarrow> JUndefined)"
  using assms
  by (auto simp: extractRehydrationInfo_def weakMapMemoize_def fun_eq_iff
           split: option.splits)

lemma extractRehydrationInfo_ok:
  assumes inv: "rehydration_caches_ok options s"
      and run: "extractRehydrationInfo options w action s = (r, s1)"
  shows "rehydration_caches_ok options s1"
proof -
  note res = extractRehydrationInfo_result[OF run]
  have same: "extract_cache s action = Some v \<Longrightarrow> v = r" for v
    using run by (simp add: extractRehydrationInfo_cached)
  have 1: "\<exists>v. extract_cache s1 a = Some v \<and> b = not_nullish v" if "has_cache s1 a = Some b" for a b
  proof -
    from that inv obtain v where v: "extract_cache s a = Some v" "b = not_nullish v"
      unfolding rehydration_caches_ok_def res(2) by blast
    show ?thesis
    proof (cases "a = action")
      case True
      with v same show ?thesis by (simp add: res(1))
    next
      case False
      with v show ?thesis by (simp add: res(1))
    qed
  qed
  have 2: "v = JUndefined"
    if none: "\<forall>f. opt_extractRehydrationInfo options \<noteq> Val f" and c: "extract_cache s1 a = Some v"
    for a v
  proof (cases "extract_cache s a")
    case None
    with c have "a = action" "v = r" by (auto simp: res(1) split: if_splits)
    moreover from None \<open>a = action\<close> res(3) none have "r = JUndefined"
      by (auto split: optional.splits)
    ultimately show ?thesis by simp
  next
    case (Some v')
    with inv none have "v' = JUndefined" unfolding rehydration_caches_ok_def by blast
    moreover from Some c same have "v = v'" by (auto simp: res(1) split: if_splits)
    ultimately show ?thesis by simp
  qed
  from 1 2 show ?thesis unfolding rehydration_caches_ok_def by blast
qed

lemma hasRehydrationInfo_cached:
  "has_cache s action = Some b \<Longrightarrow> hasRehydrationInfo options w action s = (b, s)"
  by (simp add: hasRehydrationInfo_def weakMapMemoize_def)

lemma hasRehydrationInfo_fresh:
  assumes "has_cache s action = None"
      and "extractRehydrationInfo options w action s = (r, s1)"
  shows "hasRehydrationInfo options w action s
           = (not_nullish r, s1\<lparr>has_cache := (has_cache s1)(action \<mapsto> not_nullish r)\<rparr>)"
  using assms by (simp add: hasRehydrationInfo_def weakMapMemoize_def)

lemma hasRehydrationInfo_result:
  assumes inv: "rehydration_caches_ok options s"
      and run: "hasRehydrationInfo options w action s = (b, s1)"
  shows "rehydration_caches_ok options s1"
    and "\<exists>r. extract_cache s1 action = Some r \<and> b = not_nullish r"
    and "has_cache s1 action = Some b"
    and "\<forall>a v. extract_cache s a = Some v \<longrightarrow> extract_cache s1 a = Some v"
proof -
  have "rehydration_caches_ok options s1
      \<and> (\<exists>r. extract_cache s1 action = Some r \<and> b = not_nullish r)
      \<and> has_cache s1 action = Some b
      \<and> (\<forall>a v. extract_cache s a = Some v \<longrightarrow> extract_cache s1 a = Some v)"
  proof (cases "has_cache s action")
    case (Some b')
    with run have "b = b'" "s1 = s" by (simp_all add: hasRehydrationInfo_cached)
    with Some inv show ?thesis unfolding rehydration_caches_ok_def by blast
  next
    case None
    obtain r s2 where ex: "extractRehydrationInfo options w action s = (r, s2)"
      by (cases "extractRehydrationInfo options w action s")
    note res = extractRehydrationInfo_result[OF ex]
    from hasRehydrationInfo_fresh[OF None ex] run
    have b: "b = not_nullish r" and s1: "s1 = s2\<lparr>has_cache := (has_cache s2)(action \<mapsto> b)\<rparr>"
      by simp_all
    have inv2: "rehydration_caches_ok options s2" by (rule extractRehydrationInfo_ok[OF inv ex])
    have e1: "extract_cache s1 = (extract_cache s)(action \<mapsto> r)" by (simp add: s1 res(1))
    have keep: "\<forall>a v. extract_cache s a = Some v \<longrightarrow> extract_cache s1 a = Some v"
    proof (intro allI impI)
      fix a v assume a: "extract_cache s a = Some v"
      show "extract_cache s1 a = Some v"
      proof (cases "a = action")
        case True
        with a ex have "v = r" by (simp add: extractRehydrationInfo_cached)
        with True show ?thesis by (simp add: e1)
      next
        case False
        with a show ?thesis by (simp add: e1)
      qed
    qed
    have e12: "extract_cache s1 = extract_cache s2" by (simp add: s1)
    have h1: "has_cache s1 = (has_cache s2)(action \<mapsto> b)" by (simp add: s1)
    have i: "\<exists>v. extract_cache s1 a = Some v \<and> b' = not_nullish v"
      if "has_cache s1 a = Some b'" for a b'
    proof (cases "a = action")
      case True
      with that have "b' = b" by (simp add: h1)
      with True b show ?thesis by (simp add: e1)
    next
      case False
      with that have "has_cache s2 a = Some b'" by (simp add: h1)
      with inv2 show ?thesis unfolding rehydration_caches_ok_def e12 by blast
    qed
    have ii: "(\<forall>f. opt_extractRehydrationInfo options \<noteq> Val f) \<longrightarrow>
          (\<forall>a v. extract_cache s1 a = Some v \<longrightarrow> v = JUndefined)"
      using inv2 unfolding rehydration_caches_ok_def e12 by blast
    have "rehydration_caches_ok options s1"
      unfolding rehydration_caches_ok_def using i ii by blast
    moreover have "extract_cache s1 action = Some r" by (simp add: e1)
    moreover have "has_cache s1 action = Some b" by (simp add: s1)
    ultimately show ?thesis using b keep by blast
  qed
  then show "rehydration_caches_ok options s1"
    and "\<exists>r. extract_cache s1 action = Some r \<and> b = not_nullish r"
    and "has_cache s1 action = Some b"
    and "\<forall>a v. extract_cache s a = Some v \<longrightarrow> extract_cache s1 a = Some v"
    by blast+
qed

lemma enhance_loop_fields:
  "api (enhance_loop entries s) = api s
   \<and> optionsWithDefaults (enhance_loop entries s) = optionsWithDefaults s
   \<and> extract_cache (enhance_loop entries s) = extract_cache s
   \<and> has_cache (enhance_loop entries s) = has_cache s
   \<and> calls (enhance_loop entries s) = calls s
   \<and> initializedModules (enhance_loop entries s) = initializedModules s"
proof (induction entries arbitrary: s)
  case Nil
  then show ?case by simp
next
  case (Cons x entries)
  obtain name p where x: "x = (name, p)" by (cases x)
  define s1 where "s1 =
       (case endpointDefinitions (api_context s) name of
          Some d \<Rightarrow>
            s\<lparr>api_context := (api_context s)
                \<lparr>endpointDefinitions :=
                   (endpointDefinitions (api_context s))
                     (name \<mapsto> apply_partialDefinition p d)\<rparr>\<rparr>
        | None \<Rightarrow>
            if name = ''__proto__'' \<and> reaches_proto_accessor s then
              (case endpointDefinitions_prototype s of
                 Some d \<Rightarrow>
                   s\<lparr>endpointDefinitions_prototype := Some (apply_partialDefinition p d)\<rparr>
               | None \<Rightarrow>
                   s\<lparr>Object_prototype := apply_partialDefinition p (Object_prototype s)\<rparr>)
            else s)"
  have step: "enhance_loop (x # entries) s = enhance_loop entries s1"
    by (simp add: x s1_def)
  have "api s1 = api s" "optionsWithDefaults s1 = optionsWithDefaults s"
    "extract_cache s1 = extract_cache s" "has_cache s1 = has_cache s" "calls s1 = calls s"
    "initializedModules s1 = initializedModules s"
    by (simp_all add: s1_def split: option.splits)
  with Cons.IH[of s1] show ?case unfolding step by simp
qed

lemma baseCreateApi_caches_ok:
  "rehydration_caches_ok options (snd (baseCreateApi e api_object modules options'))"
    (is "rehydration_caches_ok options (snd ?run)")
proof -
  have run: "?run = (fst ?run, snd ?run)" by simp
  from injectEndpoints_loop[OF run[unfolded baseCreateApi_start]]
  have "extract_cache (snd ?run) = Map.empty \<and> has_cache (snd ?run) = Map.empty"
    by (simp add: inject_loop_caches baseCreateApi_start created_fields)
  then show ?thesis by (simp add: rehydration_caches_ok_def)
qed

text \<open>The other two methods of the api leave the caches as they are.\<close>

lemma injectEndpoints_caches_ok:
  assumes "rehydration_caches_ok options s"
  shows "rehydration_caches_ok options (snd (injectEndpoints e inject_endpoints oe s))"
proof -
  from injectEndpoints_loop[OF surjective_pairing]
  have "snd (injectEndpoints e inject_endpoints oe s)
          = snd (inject_loop e oe (inject_endpoints build) s)" by blast
  with assms show ?thesis by (simp add: rehydration_caches_ok_def inject_loop_caches)
qed

lemma enhanceEndpoints_caches_ok:
  assumes "rehydration_caches_ok options s"
  shows "rehydration_caches_ok options (snd (enhanceEndpoints addTagTypes enhance_endpoints s))"
  using assms
  by (auto simp: rehydration_caches_ok_def enhanceEndpoints_def Let_def enhance_loop_fields
           split: optional.splits)

text \<open>The \<open>tagTypes\<close> of the options with defaults are an array in every state of an api.\<close>

lemma baseCreateApi_tagTypes:
  "tagTypes (optionsWithDefaults (snd (baseCreateApi e api_object modules options)))
     = Val (case tagTypes options of Val ts \<Rightarrow> ts | _ \<Rightarrow> [])"
    (is "tagTypes (optionsWithDefaults (snd ?run)) = _")
proof -
  have run: "?run = (fst ?run, snd ?run)" by simp
  from injectEndpoints_loop[OF run[unfolded baseCreateApi_start]]
  have "optionsWithDefaults (snd ?run) = make_optionsWithDefaults e options"
    by (simp add: inject_loop_optionsWithDefaults baseCreateApi_start created_fields)
  then show ?thesis by (simp add: make_optionsWithDefaults_def)
qed

lemma injectEndpoints_tagTypes:
  "optionsWithDefaults (snd (injectEndpoints e inject_endpoints oe s)) = optionsWithDefaults s"
proof -
  from injectEndpoints_loop[OF surjective_pairing]
  have "snd (injectEndpoints e inject_endpoints oe s)
          = snd (inject_loop e oe (inject_endpoints build) s)" by blast
  then show ?thesis by (simp add: inject_loop_optionsWithDefaults)
qed

lemma enhanceEndpoints_tagTypes:
  "tagTypes (optionsWithDefaults s) = Val ts \<Longrightarrow>
   \<exists>ts'. tagTypes (optionsWithDefaults (snd (enhanceEndpoints addTagTypes enhance_endpoints s)))
           = Val ts'"
  by (auto simp: enhanceEndpoints_def Let_def enhance_loop_fields split: optional.splits)

lemmas example_defs =
  example_state_def baseCreateApi_def injectEndpoints_def example_options_def example_env_def
  example_inject_def example_definition_def build_def has_property_def
  inherited_properties_def definition_keys_def initial_Object_prototype_def
  assign_definition_def reaches_proto_accessor_def
  Object_prototype_properties_def make_optionsWithDefaults_def with_default_def

section \<open>The endpoint registry\<close>

text \<open>
  C1, as amended. Take a call of \<open>injectEndpoints\<close> that returns (it does not throw), on
  entries with pairwise different names. Every evaluated endpoint whose name is not in
  \<open>context.endpointDefinitions\<close> when the call starts (it has no registered definition and
  is not a property name that the registry inherits), and, when \<open>overrideExisting\<close> is
  \<open>true\<close>, every evaluated endpoint whose name is not \<open>__proto__\<close>, is stored in
  \<open>context.endpointDefinitions\<close> under its name, and the \<open>injectEndpoint\<close> of every
  initialized module is called with that name and definition exactly once (as often as the
  module occurs in the list). The builder method that made a definition sets its \<open>type\<close>:
  \<open>query\<close>, \<open>mutation\<close> or \<open>infinitequery\<close>, and leaves its other properties as they
  were. The call returns the api object.
\<close>

theorem injectEndpoints_registers:
  assumes run: "injectEndpoints e inject_endpoints overrideExisting s = (Inr a, s')"
      and dist: "distinct (map fst (inject_endpoints build))"
      and mem: "(name, definition) \<in> set (inject_endpoints build)"
      and new: "(overrideExisting = JBool True \<and> name \<noteq> ''__proto__'')
                \<or> \<not> has_property name s"
  shows "endpointDefinitions (api_context s') name = Some definition
       \<and> (\<exists>new. calls s' = calls s @ new
             \<and> (\<forall>m. count_list new (InjectEndpoint m name definition)
                      = count_list (initializedModules s) m))
       \<and> query build x = x\<lparr>ed_type := Some DefinitionType_query\<rparr>
       \<and> mutation build x = x\<lparr>ed_type := Some DefinitionType_mutation\<rparr>
       \<and> infiniteQuery build x = x\<lparr>ed_type := Some DefinitionType_infinitequery\<rparr>
       \<and> a = api s"
proof -
  let ?es = "inject_endpoints build"
  let ?acc = "accepted overrideExisting (endpointDefinitions (api_context s))
                (inherited_properties s) ?es"
  from injectEndpoints_loop[OF run] have s': "s' = snd (inject_loop e overrideExisting ?es s)"
    and r: "case fst (inject_loop e overrideExisting ?es s) of
              Inl err \<Rightarrow> Inr a = Inl err | Inr u \<Rightarrow> (Inr a :: error + nat) = Inr (api s)"
    by blast+
  from r have ret: "inject_loop e overrideExisting ?es s = (Inr (), s')" and a: "a = api s"
    unfolding s' by (auto split: sum.splits simp: prod_eq_iff)
  note loop = inject_loop_returns[OF ret dist]
  from new mem have acc: "(name, definition) \<in> set ?acc"
    by (auto simp: accepted_def has_property_def)
  have dacc: "distinct (map fst ?acc)"
    unfolding accepted_def using dist by (rule distinct_map_filter)
  from new have "name \<noteq> ''__proto__''
                 \<or> ''__proto__'' \<notin> set (definition_keys (Object_prototype s))"
    by (auto simp: has_property_def inherited_properties_def)
  with ret dist acc have stored: "endpointDefinitions (api_context s') name = Some definition"
    by (rule inject_loop_stores)
  have "\<forall>m. count_list
          (concat (map (\<lambda>(n, d). map (\<lambda>m. InjectEndpoint m n d) (initializedModules s)) ?acc))
          (InjectEndpoint m name definition) = count_list (initializedModules s) m"
    by (intro allI) (rule count_list_accepted_calls[OF dacc acc])
  with loop have called: "\<exists>new. calls s' = calls s @ new
             \<and> (\<forall>m. count_list new (InjectEndpoint m name definition)
                      = count_list (initializedModules s) m)" by blast
  from stored called a show ?thesis by (simp add: build_def)
qed

text \<open>
  Instances. In the example api \<open>getPosts\<close> is registered, \<open>toString\<close> is inherited
  and \<open>getUser\<close> is not in the registry. Injecting \<open>getPosts\<close> and \<open>getUser\<close> with no
  \<open>overrideExisting\<close> stores \<open>getUser\<close>, tagged as a mutation, and calls the two modules
  with it, in their order. With \<open>overrideExisting: true\<close> the new definition of \<open>getPosts\<close>
  is stored as well.
\<close>

theorem injectEndpoints_registers_witness:
  "fst (injectEndpoints example_env example_inject JUndefined example_state) = Inr 7
   \<and> distinct (map fst (example_inject build))
   \<and> (''getUser'', mutation build (example_definition ''user'')) \<in> set (example_inject build)
   \<and> \<not> has_property ''getUser'' example_state
   \<and> has_property ''toString'' example_state
   \<and> endpointDefinitions
        (api_context (snd (injectEndpoints example_env example_inject JUndefined example_state)))
        ''getUser'' = Some (mutation build (example_definition ''user''))
   \<and> ed_type (mutation build (example_definition ''user'')) = Some DefinitionType_mutation
   \<and> calls (snd (injectEndpoints example_env example_inject JUndefined example_state))
       = calls example_state
           @ [InjectEndpoint ''core'' ''getUser'' (mutation build (example_definition ''user'')),
              InjectEndpoint ''react'' ''getUser'' (mutation build (example_definition ''user''))]
   \<and> fst (injectEndpoints example_env example_inject (JBool True) example_state) = Inr 7
   \<and> (''getPosts'', query build (example_definition ''posts/v2'')) \<in> set (example_inject build)
   \<and> has_property ''getPosts'' example_state
   \<and> endpointDefinitions
        (api_context (snd (injectEndpoints example_env example_inject (JBool True) example_state)))
        ''getPosts'' = Some (query build (example_definition ''posts/v2''))"
proof -
  have run: "injectEndpoints example_env example_inject JUndefined example_state
      = (Inr 7, snd (injectEndpoints example_env example_inject JUndefined example_state))"
    by (simp add: example_defs prod_eq_iff)
  have run_override: "injectEndpoints example_env example_inject (JBool True) example_state
      = (Inr 7, snd (injectEndpoints example_env example_inject (JBool True) example_state))"
    by (simp add: example_defs prod_eq_iff)
  have dist: "distinct (map fst (example_inject build))"
    by (simp add: example_inject_def)
  have mem: "(''getUser'', mutation build (example_definition ''user'')) \<in> set (example_inject build)"
    and mem_posts: "(''getPosts'', query build (example_definition ''posts/v2''))
                      \<in> set (example_inject build)"
    by (simp_all add: example_inject_def)
  have new: "\<not> has_property ''getUser'' example_state"
    by (simp add: example_defs)
  have old: "has_property ''getPosts'' example_state"
    and inherited: "has_property ''toString'' example_state"
    by (simp_all add: example_defs)
  have override: "JBool True = JBool True \<and> ''getPosts'' \<noteq> ''__proto__''" by simp
  have tag: "ed_type (mutation build (example_definition ''user'')) = Some DefinitionType_mutation"
    by (simp add: build_def)
  have log: "calls (snd (injectEndpoints example_env example_inject JUndefined example_state))
       = calls example_state
           @ [InjectEndpoint ''core'' ''getUser'' (mutation build (example_definition ''user'')),
              InjectEndpoint ''react'' ''getUser'' (mutation build (example_definition ''user''))]"
    by (simp add: example_defs)
  have stored: "endpointDefinitions
        (api_context (snd (injectEndpoints example_env example_inject JUndefined example_state)))
        ''getUser'' = Some (mutation build (example_definition ''user''))"
    using injectEndpoints_registers[OF run dist mem disjI2[OF new]] by (rule conjunct1)
  have replaced: "endpointDefinitions
        (api_context (snd (injectEndpoints example_env example_inject (JBool True) example_state)))
        ''getPosts'' = Some (query build (example_definition ''posts/v2''))"
    using injectEndpoints_registers[OF run_override dist mem_posts disjI1[OF override]]
    by (rule conjunct1)
  from run have 1: "fst (injectEndpoints example_env example_inject JUndefined example_state) = Inr 7"
    by (simp add: prod_eq_iff)
  from run_override
  have 2: "fst (injectEndpoints example_env example_inject (JBool True) example_state) = Inr 7"
    by (simp add: prod_eq_iff)
  from 1 2 stored replaced dist mem mem_posts new old inherited tag log show ?thesis by blast
qed

text \<open>
  C1 as stated fails when the call throws. With \<open>overrideExisting: 'throw'\<close> the registered
  name \<open>getPosts\<close> comes first and the loop throws there: \<open>getUser\<close>, whose name is not
  registered, is neither stored nor passed to a module.
\<close>

theorem injectEndpoints_throw_leaves_new_endpoint_out:
  "endpointDefinitions (api_context example_state) ''getUser'' = None
   \<and> (''getUser'', mutation build (example_definition ''user'')) \<in> set (example_inject build)
   \<and> fst (injectEndpoints example_env example_inject (JString ''throw'') example_state)
        = Inl (Error (override_message ''getPosts''))
   \<and> endpointDefinitions
        (api_context (snd (injectEndpoints example_env example_inject (JString ''throw'') example_state)))
        ''getUser'' = None
   \<and> calls (snd (injectEndpoints example_env example_inject (JString ''throw'') example_state))
        = calls example_state"
  by (simp add: example_defs)

text \<open>
  The name \<open>__proto__\<close>. An endpoint named \<open>__proto__\<close>, injected with
  \<open>overrideExisting: true\<close>, is passed to the modules but is not stored under its name: the
  assignment makes its definition the prototype of the registry. From then on the keys of
  that definition are in the registry, and a new endpoint named \<open>query\<close> is skipped.
\<close>

lemma injectEndpoints_proto_becomes_prototype:
  "fst (injectEndpoints example_env example_proto_inject (JBool True) example_state) = Inr 7
   \<and> endpointDefinitions
        (api_context (snd (injectEndpoints example_env example_proto_inject (JBool True)
                             example_state))) ''__proto__'' = None
   \<and> endpointDefinitions_prototype
        (snd (injectEndpoints example_env example_proto_inject (JBool True) example_state))
       = Some (query build (example_definition ''proto''))
   \<and> calls (snd (injectEndpoints example_env example_proto_inject (JBool True) example_state))
       = calls example_state
           @ [InjectEndpoint ''core'' ''__proto__'' (query build (example_definition ''proto'')),
              InjectEndpoint ''react'' ''__proto__'' (query build (example_definition ''proto''))]
   \<and> has_property ''query''
        (snd (injectEndpoints example_env example_proto_inject (JBool True) example_state))
   \<and> fst (injectEndpoints example_env example_query_inject JUndefined
            (snd (injectEndpoints example_env example_proto_inject (JBool True) example_state)))
       = Inr 7
   \<and> endpointDefinitions
        (api_context
           (snd (injectEndpoints example_env example_query_inject JUndefined
                   (snd (injectEndpoints example_env example_proto_inject (JBool True)
                           example_state))))) ''query'' = None
   \<and> calls (snd (injectEndpoints example_env example_query_inject JUndefined
                   (snd (injectEndpoints example_env example_proto_inject (JBool True)
                           example_state))))
       = calls (snd (injectEndpoints example_env example_proto_inject (JBool True) example_state))"
  by (simp add: example_defs example_proto_inject_def example_query_inject_def)

text \<open>
  C3. Let \<open>name\<close> have a registered definition when \<open>injectEndpoints\<close> is called. If
  \<open>overrideExisting\<close> is not exactly \<open>true\<close>, that definition is still the registered one
  after the call, whether the call returns or throws, and no module's \<open>injectEndpoint\<close> has
  been called with \<open>name\<close>. If \<open>overrideExisting\<close> is the string \<open>throw\<close> and \<open>name\<close> is
  among the supplied endpoints, the call throws. A registered definition that has been
  replaced means that \<open>overrideExisting\<close> was \<open>true\<close>.
\<close>

theorem injectEndpoints_keeps_registered:
  assumes run: "injectEndpoints e inject_endpoints overrideExisting s = (r, s')"
      and reg: "endpointDefinitions (api_context s) name = Some registered"
  shows "(overrideExisting \<noteq> JBool True \<longrightarrow>
            endpointDefinitions (api_context s') name = Some registered
          \<and> (\<exists>new. calls s' = calls s @ new \<and> (\<forall>m d. InjectEndpoint m name d \<notin> set new)))
       \<and> (overrideExisting = JString ''throw'' \<and> name \<in> fst ` set (inject_endpoints build)
            \<longrightarrow> (\<exists>err. r = Inl err))
       \<and> (endpointDefinitions (api_context s') name \<noteq> Some registered
            \<longrightarrow> overrideExisting = JBool True)"
proof -
  let ?es = "inject_endpoints build"
  from injectEndpoints_loop[OF run] have s': "s' = snd (inject_loop e overrideExisting ?es s)"
    and r: "case fst (inject_loop e overrideExisting ?es s) of
              Inl err \<Rightarrow> r = Inl err | Inr u \<Rightarrow> r = Inr (api s)" by blast+
  have keep: "overrideExisting \<noteq> JBool True \<Longrightarrow>
                endpointDefinitions (api_context s') name = Some registered"
    unfolding s' by (rule inject_loop_keeps[OF _ reg])
  have nocall: "overrideExisting \<noteq> JBool True \<Longrightarrow>
     \<exists>new. calls s' = calls s @ new \<and> (\<forall>m d. InjectEndpoint m name d \<notin> set new)"
    unfolding s' by (rule inject_loop_no_call[OF _ reg])
  have throws: "\<exists>err. r = Inl err"
    if "overrideExisting = JString ''throw''" "name \<in> fst ` set ?es"
  proof -
    from that(2) obtain d where "(name, d) \<in> set ?es" by auto
    from inject_loop_throws[OF this, of s e] reg obtain err where
      "fst (inject_loop e (JString ''throw'') ?es s) = Inl err" by auto
    with r that(1) show ?thesis by simp
  qed
  from keep nocall throws show ?thesis by blast
qed

text \<open>
  An instance: \<open>getPosts\<close> is registered in the example api. Injecting another definition
  for it leaves the registered one with no \<open>overrideExisting\<close>, throws with \<open>throw\<close>, and
  replaces it with \<open>true\<close>.
\<close>

theorem injectEndpoints_keeps_registered_witness:
  "endpointDefinitions (api_context example_state) ''getPosts''
      = Some (query build (example_definition ''posts''))
   \<and> ''getPosts'' \<in> fst ` set (example_inject build)
   \<and> endpointDefinitions
        (api_context (snd (injectEndpoints example_env example_inject JUndefined example_state)))
        ''getPosts'' = Some (query build (example_definition ''posts''))
   \<and> fst (injectEndpoints example_env example_inject (JString ''throw'') example_state)
        = Inl (Error (override_message ''getPosts''))
   \<and> endpointDefinitions
        (api_context (snd (injectEndpoints example_env example_inject (JBool True) example_state)))
        ''getPosts'' = Some (query build (example_definition ''posts/v2''))"
proof -
  have reg: "endpointDefinitions (api_context example_state) ''getPosts''
      = Some (query build (example_definition ''posts''))"
    by (simp add: example_defs)
  have mem: "''getPosts'' \<in> fst ` set (example_inject build)"
    by (simp add: example_inject_def)
  have kept: "endpointDefinitions
        (api_context (snd (injectEndpoints example_env example_inject JUndefined example_state)))
        ''getPosts'' = Some (query build (example_definition ''posts''))"
    using injectEndpoints_keeps_registered[where e = example_env and inject_endpoints = example_inject
        and overrideExisting = JUndefined, OF surjective_pairing reg]
    by simp
  have "\<exists>err. fst (injectEndpoints example_env example_inject (JString ''throw'') example_state) = Inl err"
    using injectEndpoints_keeps_registered[where e = example_env and inject_endpoints = example_inject
        and overrideExisting = "JString ''throw''", OF surjective_pairing reg] mem
    by simp
  moreover have "fst (injectEndpoints example_env example_inject (JString ''throw'') example_state)
        = Inl (Error (override_message ''getPosts''))"
    by (simp add: example_defs)
  moreover have "endpointDefinitions
        (api_context (snd (injectEndpoints example_env example_inject (JBool True) example_state)))
        ''getPosts'' = Some (query build (example_definition ''posts/v2''))"
    by (simp add: example_defs)
  ultimately show ?thesis using reg mem kept by blast
qed

section \<open>Creating an api\<close>

text \<open>
  C2, as amended. For every non-empty list of modules \<open>m # ms\<close>, the function returned by
  \<open>buildCreateApi\<close> calls the \<open>init\<close> of each module exactly once, in the order of the
  list, with the api object, the options with defaults and the context, before anything
  else is called; every later call is an \<open>injectEndpoint\<close>. Then it injects the endpoints
  of the options, and either returns that same api object or, in a development build,
  throws the error of the check of an infinite query among these endpoints whose name is
  not a property name of \<open>Object.prototype\<close>. With pairwise different names it returns
  exactly when the check passes on every endpoint that the loop does not skip (in a build
  that is not a development build: always), and then the registry holds these endpoints,
  each passed once to every module in order. The api object exposes \<open>injectEndpoints\<close> and
  \<open>enhanceEndpoints\<close>: called on the api that was created, \<open>injectEndpoints\<close> returns the
  same api object whenever it returns, and \<open>enhanceEndpoints\<close> always returns it.
\<close>

theorem buildCreateApi_initializes_and_returns:
  assumes run: "buildCreateApi e m ms api_object options = (r, s')"
  shows "(\<exists>new. calls s' =
            map (\<lambda>mo. Init mo api_object (make_optionsWithDefaults e options)
                       \<lparr>endpointDefinitions = Map.empty, apiUid = nanoid e\<rparr>) (m # ms) @ new
          \<and> (\<forall>c \<in> set new. \<exists>mo n d. c = InjectEndpoint mo n d))
       \<and> api s' = api_object
       \<and> (r = Inr api_object
          \<or> (development e
              \<and> (\<exists>name definition err.
                    (name, definition) \<in> set (endpoints options build)
                  \<and> name \<notin> set Object_prototype_properties
                  \<and> check_infiniteQueryOptions e name definition = Some err
                  \<and> r = Inl err)))
       \<and> (distinct (map fst (endpoints options build)) \<longrightarrow>
            (r = Inr api_object)
              = (\<forall>(name, definition)
                    \<in> set (accepted JUndefined Map.empty Object_prototype_properties
                             (endpoints options build)).
                   development e \<longrightarrow> check_infiniteQueryOptions e name definition = None))
       \<and> (distinct (map fst (endpoints options build)) \<and> r = Inr api_object \<longrightarrow>
              endpointDefinitions (api_context s')
                = map_of (accepted JUndefined Map.empty Object_prototype_properties
                            (endpoints options build))
            \<and> calls s' =
                map (\<lambda>mo. Init mo api_object (make_optionsWithDefaults e options)
                       \<lparr>endpointDefinitions = Map.empty, apiUid = nanoid e\<rparr>) (m # ms)
                @ concat (map (\<lambda>(n, d). map (\<lambda>mo. InjectEndpoint mo n d) (m # ms))
                           (accepted JUndefined Map.empty Object_prototype_properties
                              (endpoints options build))))
       \<and> (\<forall>inject_endpoints overrideExisting a s2.
             injectEndpoints e inject_endpoints overrideExisting s' = (Inr a, s2)
               \<longrightarrow> a = api_object)
       \<and> (\<forall>addTagTypes enhance_endpoints.
             fst (enhanceEndpoints addTagTypes enhance_endpoints s') = Inr api_object)"
proof -
  let ?es = "endpoints options build"
  let ?owd = "make_optionsWithDefaults e options"
  let ?inits = "map (\<lambda>mo. Init mo api_object ?owd
                       \<lparr>endpointDefinitions = Map.empty, apiUid = nanoid e\<rparr>) (m # ms)"
  let ?c = "created e api_object (m # ms) ?owd :: ('a, 'b) ApiState"
  let ?acc = "accepted JUndefined Map.empty Object_prototype_properties ?es"
  from run have base: "baseCreateApi e api_object (m # ms) options = (r, s')"
    by (simp add: buildCreateApi_def)
  then have inj: "injectEndpoints e (endpoints options) JUndefined ?c = (r, s')"
    by (simp add: baseCreateApi_start)
  from injectEndpoints_loop[OF inj] have s': "s' = snd (inject_loop e JUndefined ?es ?c)"
    and r: "case fst (inject_loop e JUndefined ?es ?c) of
              Inl err \<Rightarrow> r = Inl err | Inr u \<Rightarrow> r = Inr (api ?c)" by blast+
  have acc: "accepted JUndefined (endpointDefinitions (api_context ?c))
               (inherited_properties ?c) ?es = ?acc"
    by (simp add: created_fields inherited_properties_created)
  have inits: "\<exists>new. calls s' = ?inits @ new
          \<and> (\<forall>c \<in> set new. \<exists>mo n d. c = InjectEndpoint mo n d)"
    using baseCreateApi_calls[OF base] .
  have api: "api s' = api_object" unfolding s' by (simp add: inject_loop_api created_fields)
  have owd: "optionsWithDefaults s' = ?owd"
    unfolding s' by (simp add: inject_loop_optionsWithDefaults created_fields)
  have result: "r = Inr api_object
          \<or> (development e
              \<and> (\<exists>name definition err.
                    (name, definition) \<in> set ?es
                  \<and> name \<notin> set Object_prototype_properties
                  \<and> check_infiniteQueryOptions e name definition = Some err
                  \<and> r = Inl err))"
  proof (cases "fst (inject_loop e JUndefined ?es ?c)")
    case (Inr u)
    with r show ?thesis by (simp add: created_fields)
  next
    case (Inl err)
    with r have "r = Inl err" by simp
    moreover from inject_loop_throw_is_check[OF _ Inl]
    have "development e
          \<and> (\<exists>(n, d) \<in> set ?es. check_infiniteQueryOptions e n d = Some err
                \<and> n \<notin> set Object_prototype_properties)"
      by (simp add: created_fields definition_keys_initial_Object_prototype)
    ultimately show ?thesis by blast
  qed
  have returns: "(r = Inr api_object)
              = (\<forall>(name, definition) \<in> set ?acc.
                   development e \<longrightarrow> check_infiniteQueryOptions e name definition = None)"
    if dist: "distinct (map fst ?es)"
  proof -
    have "(r = Inr api_object) = (fst (inject_loop e JUndefined ?es ?c) = Inr ())"
      using r by (cases "fst (inject_loop e JUndefined ?es ?c)") (simp_all add: created_fields)
    also have "\<dots> = (\<forall>(name, definition) \<in> set ?acc.
                   development e \<longrightarrow> check_infiniteQueryOptions e name definition = None)"
      using inject_loop_returns_iff[OF _ dist, of JUndefined e ?c] unfolding acc by simp
    finally show ?thesis .
  qed
  have registry: "endpointDefinitions (api_context s') = map_of ?acc
                \<and> calls s' = ?inits
                    @ concat (map (\<lambda>(n, d). map (\<lambda>mo. InjectEndpoint mo n d) (m # ms)) ?acc)"
    if dist: "distinct (map fst ?es)" and ret: "r = Inr api_object"
  proof -
    from r ret have "fst (inject_loop e JUndefined ?es ?c) = Inr ()"
      by (cases "fst (inject_loop e JUndefined ?es ?c)") simp_all
    with s' have loop: "inject_loop e JUndefined ?es ?c = (Inr (), s')"
      by (simp add: prod_eq_iff)
    from inject_loop_returns[OF loop dist] show ?thesis
      unfolding acc by (simp add: created_fields)
  qed
  have inject: "a = api_object"
    if "injectEndpoints e inject_endpoints overrideExisting s' = (Inr a, s2)"
    for inject_endpoints overrideExisting a and s2 :: "('a, 'b) ApiState"
    using injectEndpoints_loop[OF that] api by (auto split: sum.splits)
  have enhance: "fst (enhanceEndpoints addTagTypes enhance_endpoints s') = Inr api_object"
    for addTagTypes enhance_endpoints
    using api owd
    by (auto simp: enhanceEndpoints_def Let_def enhance_loop_fields make_optionsWithDefaults_def
             split: optional.splits)
  from inits api result returns registry inject enhance show ?thesis by blast
qed

text \<open>
  An instance, in a development build: the modules \<open>core\<close> and \<open>react\<close> and the options
  with the infinite queries \<open>feed\<close> and \<open>toString\<close>. The check passes on \<open>feed\<close>. It
  would fail on \<open>toString\<close>, which the loop skips, its name being inherited from
  \<open>Object.prototype\<close>: the api is returned, with \<open>feed\<close> registered.
\<close>

theorem buildCreateApi_initializes_and_returns_witness:
  "development example_dev_env
   \<and> distinct (map fst (endpoints example_pages_options build))
   \<and> accepted JUndefined Map.empty Object_prototype_properties
        (endpoints example_pages_options build)
       = [(''feed'', infiniteQuery build (example_infinite_definition (JNumber 2) (JFunction 2)))]
   \<and> check_infiniteQueryOptions example_dev_env ''feed''
        (infiniteQuery build (example_infinite_definition (JNumber 2) (JFunction 2))) = None
   \<and> check_infiniteQueryOptions example_dev_env ''toString''
        (infiniteQuery build (example_infinite_definition (JNumber 0) JUndefined))
       = Some (Error (''maxPages for endpoint '' @ [CHR 0x27] @ ''toString'' @ [CHR 0x27]
                        @ '' must be a number greater than 0''))
   \<and> fst (buildCreateApi example_dev_env ''core'' [''react''] 7 example_pages_options
          :: (error + nat) \<times> (string, nat) ApiState) = Inr 7
   \<and> calls (snd (buildCreateApi example_dev_env ''core'' [''react''] 7 example_pages_options)
             :: (string, nat) ApiState)
       = [Init ''core'' 7 (make_optionsWithDefaults example_dev_env example_pages_options)
            \<lparr>endpointDefinitions = Map.empty, apiUid = ''uid-1''\<rparr>,
          Init ''react'' 7 (make_optionsWithDefaults example_dev_env example_pages_options)
            \<lparr>endpointDefinitions = Map.empty, apiUid = ''uid-1''\<rparr>,
          InjectEndpoint ''core'' ''feed''
            (infiniteQuery build (example_infinite_definition (JNumber 2) (JFunction 2))),
          InjectEndpoint ''react'' ''feed''
            (infiniteQuery build (example_infinite_definition (JNumber 2) (JFunction 2)))]
   \<and> endpointDefinitions
        (api_context (snd (buildCreateApi example_dev_env ''core'' [''react''] 7
                             example_pages_options) :: (string, nat) ApiState)) ''feed''
       = Some (infiniteQuery build (example_infinite_definition (JNumber 2) (JFunction 2)))
   \<and> endpointDefinitions
        (api_context (snd (buildCreateApi example_dev_env ''core'' [''react''] 7
                             example_pages_options) :: (string, nat) ApiState)) ''toString''
       = None
   \<and> fst (enhanceEndpoints (Val [''Feed'']) Absent
            (snd (buildCreateApi example_dev_env ''core'' [''react''] 7 example_pages_options)
               :: (string, nat) ApiState)) = Inr 7"
proof -
  let ?run = "buildCreateApi example_dev_env ''core'' [''react''] 7 example_pages_options
                :: (error + nat) \<times> (string, nat) ApiState"
  let ?feed = "infiniteQuery build (example_infinite_definition (JNumber 2) (JFunction 2))"
  let ?acc = "accepted JUndefined Map.empty Object_prototype_properties
                (endpoints example_pages_options build)"
  have dev: "development example_dev_env" by (simp add: example_dev_env_def)
  have dist: "distinct (map fst (endpoints example_pages_options build))"
    by (simp add: example_pages_options_def)
  have acc: "?acc = [(''feed'', ?feed)]"
    by (simp add: accepted_def example_pages_options_def Object_prototype_properties_def)
  have feed: "check_infiniteQueryOptions example_dev_env ''feed'' ?feed = None"
    by (simp add: check_infiniteQueryOptions_def example_dev_env_def example_env_def
          example_infinite_definition_def build_def)
  have toString: "check_infiniteQueryOptions example_dev_env ''toString''
        (infiniteQuery build (example_infinite_definition (JNumber 0) JUndefined))
       = Some (Error (''maxPages for endpoint '' @ [CHR 0x27] @ ''toString'' @ [CHR 0x27]
                        @ '' must be a number greater than 0''))"
    by (simp add: check_infiniteQueryOptions_def example_dev_env_def example_env_def
          example_infinite_definition_def build_def)
  have ok: "\<forall>(name, definition) \<in> set ?acc.
              development example_dev_env
                \<longrightarrow> check_infiniteQueryOptions example_dev_env name definition = None"
    unfolding acc using feed by simp
  note inst = buildCreateApi_initializes_and_returns[of example_dev_env "''core''" "[''react'']" 7
      example_pages_options "fst ?run" "snd ?run", OF surjective_pairing]
  from inst dist ok have 1: "fst ?run = Inr 7" by blast
  from inst dist 1 have 2: "endpointDefinitions (api_context (snd ?run)) = map_of ?acc"
    and 3: "calls (snd ?run) =
              map (\<lambda>mo. Init mo 7 (make_optionsWithDefaults example_dev_env example_pages_options)
                     \<lparr>endpointDefinitions = Map.empty, apiUid = nanoid example_dev_env\<rparr>)
                (''core'' # [''react''])
              @ concat (map (\<lambda>(n, d). map (\<lambda>mo. InjectEndpoint mo n d) (''core'' # [''react'']))
                         ?acc)"
    by blast+
  from inst have 4: "fst (enhanceEndpoints (Val [''Feed'']) Absent (snd ?run)) = Inr 7"
    by blast
  have uid: "nanoid example_dev_env = ''uid-1''" by (simp add: example_dev_env_def example_env_def)
  from 2 have 5: "endpointDefinitions (api_context (snd ?run)) ''feed'' = Some ?feed"
    and 6: "endpointDefinitions (api_context (snd ?run)) ''toString'' = None"
    unfolding acc by simp_all
  from 3 have 7: "calls (snd ?run)
       = [Init ''core'' 7 (make_optionsWithDefaults example_dev_env example_pages_options)
            \<lparr>endpointDefinitions = Map.empty, apiUid = ''uid-1''\<rparr>,
          Init ''react'' 7 (make_optionsWithDefaults example_dev_env example_pages_options)
            \<lparr>endpointDefinitions = Map.empty, apiUid = ''uid-1''\<rparr>,
          InjectEndpoint ''core'' ''feed'' ?feed,
          InjectEndpoint ''react'' ''feed'' ?feed]"
    unfolding acc uid by simp
  from dev dist acc feed toString 1 7 5 6 4 show ?thesis by blast
qed

text \<open>
  C2 as stated fails in a development build when an infinite query has \<open>maxPages: 0\<close>:
  the modules are initialized and then \<open>injectEndpoints\<close> throws, so no api is returned.
  Here \<open>isInfiniteQueryDefinition\<close> tests the \<open>type\<close> of the definition.
\<close>

theorem buildCreateApi_development_check_throws:
  "fst (buildCreateApi example_dev_env ''core'' [''react''] 7 example_feed_options
          :: (error + nat) \<times> (string, nat) ApiState)
     = Inl (Error (''maxPages for endpoint '' @ [CHR 0x27] @ ''feed'' @ [CHR 0x27]
                     @ '' must be a number greater than 0''))"
  by (simp add: buildCreateApi_def example_dev_env_def example_feed_options_def
        example_infinite_definition_def check_infiniteQueryOptions_def example_defs)

text \<open>
  C5. \<open>keepUnusedDataFor\<close> defaults to 60: every module's \<open>init\<close> is called, and the options
  with defaults of every \<open>init\<close> call have \<open>keepUnusedDataFor\<close> equal to 60 when the key is
  absent from the options, and equal to the supplied value when the key is present.
\<close>

theorem keepUnusedDataFor_default:
  assumes run: "buildCreateApi e m ms api_object options = (r, s')"
  shows "(\<forall>mo \<in> set (m # ms). \<exists>a ow c. Init mo a ow c \<in> set (calls s'))
       \<and> (\<forall>mo a ow c. Init mo a ow c \<in> set (calls s') \<longrightarrow>
             (keepUnusedDataFor options = Absent \<longrightarrow> keepUnusedDataFor ow = Val (JNumber 60))
           \<and> (keepUnusedDataFor options \<noteq> Absent \<longrightarrow>
                keepUnusedDataFor ow = keepUnusedDataFor options))"
proof -
  let ?inits = "map (\<lambda>mo. Init mo api_object (make_optionsWithDefaults e options)
                       \<lparr>endpointDefinitions = Map.empty, apiUid = nanoid e\<rparr>) (m # ms)"
  from run have base: "baseCreateApi e api_object (m # ms) options = (r, s')"
    by (simp add: buildCreateApi_def)
  from baseCreateApi_calls[OF base] obtain new where
    calls: "calls s' = ?inits @ new"
    and new: "\<forall>c \<in> set new. \<exists>mo n d. c = InjectEndpoint mo n d" by blast
  have each: "\<forall>mo \<in> set (m # ms). \<exists>a ow c. Init mo a ow c \<in> set (calls s')"
    unfolding calls by (auto simp: image_iff)
  have ow: "ow = make_optionsWithDefaults e options" if "Init mo a ow c \<in> set (calls s')"
    for mo a ow c
    using that new unfolding calls by auto
  have dflt: "keepUnusedDataFor options = Absent \<Longrightarrow>
      keepUnusedDataFor (make_optionsWithDefaults e options) = Val (JNumber 60)"
    by (simp add: make_optionsWithDefaults_def with_default_def)
  have kept: "keepUnusedDataFor options \<noteq> Absent \<Longrightarrow>
      keepUnusedDataFor (make_optionsWithDefaults e options) = keepUnusedDataFor options"
    by (simp add: make_optionsWithDefaults_def with_default_def split: optional.splits)
  from each ow dflt kept show ?thesis by blast
qed

text \<open>
  An instance: the example options have no \<open>keepUnusedDataFor\<close>, and \<open>core\<close> is initialized
  with 60; with \<open>keepUnusedDataFor: 5\<close> it is initialized with 5.
\<close>

theorem keepUnusedDataFor_default_witness:
  "keepUnusedDataFor example_options = Absent
   \<and> Init ''core'' 7 (make_optionsWithDefaults example_env example_options)
         \<lparr>endpointDefinitions = Map.empty, apiUid = ''uid-1''\<rparr>
       \<in> set (calls (snd (buildCreateApi example_env ''core'' [''react''] 7 example_options
                             :: (error + nat) \<times> (string, nat) ApiState)))
   \<and> keepUnusedDataFor (make_optionsWithDefaults example_env example_options) = Val (JNumber 60)
   \<and> Init ''core'' 7
         (make_optionsWithDefaults example_env
            (example_options\<lparr>keepUnusedDataFor := Val (JNumber 5)\<rparr>))
         \<lparr>endpointDefinitions = Map.empty, apiUid = ''uid-1''\<rparr>
       \<in> set (calls (snd (buildCreateApi example_env ''core'' [''react''] 7
                              (example_options\<lparr>keepUnusedDataFor := Val (JNumber 5)\<rparr>)
                             :: (error + nat) \<times> (string, nat) ApiState)))
   \<and> keepUnusedDataFor
         (make_optionsWithDefaults example_env
            (example_options\<lparr>keepUnusedDataFor := Val (JNumber 5)\<rparr>)) = Val (JNumber 5)"
proof -
  let ?run = "buildCreateApi example_env ''core'' [''react''] 7 example_options
                :: (error + nat) \<times> (string, nat) ApiState"
  let ?options5 = "example_options\<lparr>keepUnusedDataFor := Val (JNumber 5)\<rparr>"
  let ?run5 = "buildCreateApi example_env ''core'' [''react''] 7 ?options5
                :: (error + nat) \<times> (string, nat) ApiState"
  have absent: "keepUnusedDataFor example_options = Absent"
    by (simp add: example_options_def)
  have supplied: "keepUnusedDataFor ?options5 \<noteq> Absent" "keepUnusedDataFor ?options5 = Val (JNumber 5)"
    by simp_all
  have uid: "nanoid example_env = ''uid-1''" by (simp add: example_env_def)
  have init: "Init ''core'' 7 (make_optionsWithDefaults example_env example_options)
         \<lparr>endpointDefinitions = Map.empty, apiUid = ''uid-1''\<rparr> \<in> set (calls (snd ?run))"
    using baseCreateApi_calls[of example_env 7 "[''core'', ''react'']" example_options
            "fst ?run" "snd ?run"]
    by (auto simp: buildCreateApi_def uid)
  have init5: "Init ''core'' 7 (make_optionsWithDefaults example_env ?options5)
         \<lparr>endpointDefinitions = Map.empty, apiUid = ''uid-1''\<rparr> \<in> set (calls (snd ?run5))"
    using baseCreateApi_calls[of example_env 7 "[''core'', ''react'']" ?options5
            "fst ?run5" "snd ?run5"]
    by (auto simp: buildCreateApi_def uid)
  from keepUnusedDataFor_default[of example_env "''core''" "[''react'']" 7 example_options
         "fst ?run" "snd ?run", OF surjective_pairing] init absent
  have 60: "keepUnusedDataFor (make_optionsWithDefaults example_env example_options)
              = Val (JNumber 60)" by blast
  from keepUnusedDataFor_default[of example_env "''core''" "[''react'']" 7 ?options5
         "fst ?run5" "snd ?run5", OF surjective_pairing] init5 supplied
  have 5: "keepUnusedDataFor (make_optionsWithDefaults example_env ?options5) = Val (JNumber 5)"
    by metis
  from absent init 60 init5 5 show ?thesis by blast
qed

section \<open>Cache keys\<close>

text \<open>
  What the \<open>serializeQueryArgs\<close> of the options with defaults does, case by case. An
  endpoint definition that has the key \<open>serializeQueryArgs\<close> holding a function gets that
  function applied: a result that is a string is returned as it is, any other result is
  given to \<open>defaultSerializeQueryArgs\<close> as the \<open>queryArgs\<close>. A definition without the key
  gets the \<open>serializeQueryArgs\<close> of the options when there is one, and
  \<open>defaultSerializeQueryArgs\<close> otherwise. A definition that has the key holding anything
  else, \<open>undefined\<close> included, makes the call throw a TypeError.
\<close>

lemma serializeQueryArgs_cases:
  "(\<forall>f. ed_serializeQueryArgs (endpointDefinition queryArgsApi) = Some (JFunction f) \<longrightarrow>
       serializeQueryArgs e options queryArgsApi =
         (if typeof (call_function e f queryArgsApi) = ''string''
          then Inr (call_function e f queryArgsApi)
          else Inr (defaultSerializeQueryArgs e
                      (queryArgsApi\<lparr>queryArgs := call_function e f queryArgsApi\<rparr>))))
   \<and> (ed_serializeQueryArgs (endpointDefinition queryArgsApi) = None \<longrightarrow>
        (\<forall>g. opt_serializeQueryArgs options = Val g \<longrightarrow>
              serializeQueryArgs e options queryArgsApi = Inr (g queryArgsApi))
      \<and> ((\<forall>g. opt_serializeQueryArgs options \<noteq> Val g) \<longrightarrow>
              serializeQueryArgs e options queryArgsApi
                = Inr (defaultSerializeQueryArgs e queryArgsApi)))
   \<and> (\<forall>v. ed_serializeQueryArgs (endpointDefinition queryArgsApi) = Some v
            \<and> typeof v \<noteq> ''function'' \<longrightarrow>
          serializeQueryArgs e options queryArgsApi
            = Inl (TypeError ''endpointSQA is not a function''))
   \<and> opt_serializeQueryArgs (make_optionsWithDefaults e options)
        = Val (serializeQueryArgs e options)"
  by (auto simp: serializeQueryArgs_def make_optionsWithDefaults_def Let_def
           split: option.splits optional.splits js_value.splits)

text \<open>
  Instances of the three cases in which the claim holds: an endpoint function that returns
  a string, one that returns an object, the function of the options, and the default.
\<close>

lemma serializeQueryArgs_instances:
  "serializeQueryArgs example_env example_options
      (example_queryArgsApi (Some (JFunction 0)) (JNumber 3)) = Inr (JString ''custom-key'')
   \<and> serializeQueryArgs example_env example_options
      (example_queryArgsApi (Some (JFunction 1)) (JNumber 3)) = Inr (JString ''getPosts(object)'')
   \<and> serializeQueryArgs example_env
        (example_options\<lparr>opt_serializeQueryArgs := Val (\<lambda>q. JString ''api-level'')\<rparr>)
        (example_queryArgsApi None (JString ''a'')) = Inr (JString ''api-level'')
   \<and> serializeQueryArgs example_env example_options
        (example_queryArgsApi None (JString ''a'')) = Inr (JString ''getPosts(a)'')"
  by (simp add: serializeQueryArgs_def example_env_def example_options_def
        example_queryArgsApi_def build_def example_definition_def)

text \<open>
  C4 fails on an endpoint definition whose key \<open>serializeQueryArgs\<close> holds \<open>undefined\<close>,
  which the type of the optional property allows. Such a definition provides no function
  of its own, so by the claim the function of the options is applied, and the default when
  the options have none. The code tests the key with \<open>in\<close> and calls what it holds: the
  call throws a TypeError and none of the three serializers is applied. The sibling branch
  tests \<open>options.serializeQueryArgs\<close> for truthiness: an option holding \<open>undefined\<close> is
  passed over and the default is applied, and the same definition without the key gets the
  function of the options.
\<close>

theorem serializeQueryArgs_undefined_key_throws:
  "ed_serializeQueryArgs (endpointDefinition (example_queryArgsApi (Some JUndefined) (JNumber 3)))
     = Some JUndefined
   \<and> serializeQueryArgs example_env
        (example_options\<lparr>opt_serializeQueryArgs := Val (\<lambda>q. JString ''api-level'')\<rparr>)
        (example_queryArgsApi (Some JUndefined) (JNumber 3))
       = Inl (TypeError ''endpointSQA is not a function'')
   \<and> serializeQueryArgs example_env example_options
        (example_queryArgsApi (Some JUndefined) (JNumber 3))
       = Inl (TypeError ''endpointSQA is not a function'')
   \<and> serializeQueryArgs example_env
        (example_options\<lparr>opt_serializeQueryArgs := Val (\<lambda>q. JString ''api-level'')\<rparr>)
        (example_queryArgsApi None (JNumber 3))
       = Inr (JString ''api-level'')
   \<and> serializeQueryArgs example_env
        (example_options\<lparr>opt_serializeQueryArgs := Undef\<rparr>)
        (example_queryArgsApi None (JString ''a''))
       = Inr (JString ''getPosts(a)'')"
  by (simp add: serializeQueryArgs_def example_env_def example_options_def
        example_queryArgsApi_def build_def example_definition_def)

section \<open>Rehydration\<close>

text \<open>
  C6. In a state of an api, \<open>extractRehydrationInfo\<close> is a memoization of the user's
  function. A first call with an action returns what the user's function returns for the
  action and the \<open>reducerPath\<close> of the options (\<open>api\<close> when there is none), and \<open>undefined\<close>
  when the options have no such function; a call with an action that has a cached result
  returns that result. Once it has returned a result for an action, every later call with
  that action returns this result, whatever the user's function would now compute, and the
  results cached before stay. \<open>hasRehydrationInfo\<close> returns true exactly when that result
  is neither \<open>null\<close> nor \<open>undefined\<close>, it is memoized as well, and without an
  \<open>extractRehydrationInfo\<close> option it returns false for every action.
\<close>

theorem rehydration_info_memoized:
  assumes inv: "rehydration_caches_ok options s"
  shows "(extract_cache s action = None \<longrightarrow>
            fst (extractRehydrationInfo options w action s)
              = (case opt_extractRehydrationInfo options of
                   Val f \<Rightarrow> f action (case reducerPath options of Val p \<Rightarrow> p | _ \<Rightarrow> ''api'') w
                 | _ \<Rightarrow> JUndefined)
          \<and> fst (hasRehydrationInfo options w action s)
              = not_nullish
                  (case opt_extractRehydrationInfo options of
                     Val f \<Rightarrow> f action (case reducerPath options of Val p \<Rightarrow> p | _ \<Rightarrow> ''api'') w
                   | _ \<Rightarrow> JUndefined))
       \<and> (\<forall>v. extract_cache s action = Some v \<longrightarrow>
            extractRehydrationInfo options w action s = (v, s)
          \<and> fst (hasRehydrationInfo options w action s) = not_nullish v)
       \<and> (\<forall>r s1. extractRehydrationInfo options w action s = (r, s1) \<longrightarrow>
            rehydration_caches_ok options s1
          \<and> (\<forall>w'. extractRehydrationInfo options w' action s1 = (r, s1))
          \<and> (\<forall>w'. fst (hasRehydrationInfo options w' action s1) = not_nullish r)
          \<and> (\<forall>a v. extract_cache s a = Some v \<longrightarrow> extract_cache s1 a = Some v))
       \<and> (\<forall>b s1. hasRehydrationInfo options w action s = (b, s1) \<longrightarrow>
            rehydration_caches_ok options s1
          \<and> (\<exists>r. (\<forall>w'. extractRehydrationInfo options w' action s1 = (r, s1))
                 \<and> b = not_nullish r)
          \<and> (\<forall>w'. hasRehydrationInfo options w' action s1 = (b, s1))
          \<and> (\<forall>a v. extract_cache s a = Some v \<longrightarrow> extract_cache s1 a = Some v))
       \<and> ((\<forall>f. opt_extractRehydrationInfo options \<noteq> Val f) \<longrightarrow>
            fst (hasRehydrationInfo options w action s) = False)"
proof -
  let ?user = "case opt_extractRehydrationInfo options of
                 Val f \<Rightarrow> f action (case reducerPath options of Val p \<Rightarrow> p | _ \<Rightarrow> ''api'') w
               | _ \<Rightarrow> JUndefined"
  have has: "fst (hasRehydrationInfo options w' action s0) = not_nullish r"
    if inv0: "rehydration_caches_ok options s0"
      and ex: "extractRehydrationInfo options w' action s0 = (r, s1)"
    for w' s0 r s1
  proof -
    obtain b s2 where h: "hasRehydrationInfo options w' action s0 = (b, s2)"
      by (cases "hasRehydrationInfo options w' action s0")
    show ?thesis
    proof (cases "has_cache s0 action")
      case None
      from hasRehydrationInfo_fresh[OF None ex] show ?thesis by simp
    next
      case (Some b')
      with inv0 obtain v where v: "extract_cache s0 action = Some v" "b' = not_nullish v"
        unfolding rehydration_caches_ok_def by blast
      from v(1) ex have "r = v" by (simp add: extractRehydrationInfo_cached)
      with Some v(2) show ?thesis by (simp add: hasRehydrationInfo_cached)
    qed
  qed
  have F: "fst (extractRehydrationInfo options w action s) = ?user
          \<and> fst (hasRehydrationInfo options w action s) = not_nullish ?user"
    if miss: "extract_cache s action = None"
  proof -
    have 1: "fst (extractRehydrationInfo options w action s) = ?user"
      using extractRehydrationInfo_result(3)[OF surjective_pairing miss] .
    from has[OF inv surjective_pairing] 1 show ?thesis by simp
  qed
  have H: "extractRehydrationInfo options w action s = (v, s)
          \<and> fst (hasRehydrationInfo options w action s) = not_nullish v"
    if hit: "extract_cache s action = Some v" for v
  proof -
    have 1: "extractRehydrationInfo options w action s = (v, s)"
      using hit by (rule extractRehydrationInfo_cached)
    from has[OF inv 1] 1 show ?thesis by simp
  qed
  have A: "rehydration_caches_ok options s1
          \<and> (\<forall>w'. extractRehydrationInfo options w' action s1 = (r, s1))
          \<and> (\<forall>w'. fst (hasRehydrationInfo options w' action s1) = not_nullish r)
          \<and> (\<forall>a v. extract_cache s a = Some v \<longrightarrow> extract_cache s1 a = Some v)"
    if run: "extractRehydrationInfo options w action s = (r, s1)" for r s1
  proof -
    note res = extractRehydrationInfo_result[OF run]
    have inv1: "rehydration_caches_ok options s1" by (rule extractRehydrationInfo_ok[OF inv run])
    have c: "extract_cache s1 action = Some r" by (simp add: res(1))
    have again: "\<forall>w'. extractRehydrationInfo options w' action s1 = (r, s1)"
      using c by (simp add: extractRehydrationInfo_cached)
    have has1: "\<forall>w'. fst (hasRehydrationInfo options w' action s1) = not_nullish r"
      using has[OF inv1] again by blast
    have keep: "\<forall>a v. extract_cache s a = Some v \<longrightarrow> extract_cache s1 a = Some v"
    proof (intro allI impI)
      fix a v assume a: "extract_cache s a = Some v"
      show "extract_cache s1 a = Some v"
      proof (cases "a = action")
        case True
        with a run have "v = r" by (simp add: extractRehydrationInfo_cached)
        with True show ?thesis by (simp add: res(1))
      next
        case False
        with a show ?thesis by (simp add: res(1))
      qed
    qed
    from inv1 again has1 keep show ?thesis by blast
  qed
  have B: "rehydration_caches_ok options s1
          \<and> (\<exists>r. (\<forall>w'. extractRehydrationInfo options w' action s1 = (r, s1))
                 \<and> b = not_nullish r)
          \<and> (\<forall>w'. hasRehydrationInfo options w' action s1 = (b, s1))
          \<and> (\<forall>a v. extract_cache s a = Some v \<longrightarrow> extract_cache s1 a = Some v)"
    if run: "hasRehydrationInfo options w action s = (b, s1)" for b s1
  proof -
    note res = hasRehydrationInfo_result[OF inv run]
    from res(2) obtain r where r: "extract_cache s1 action = Some r" "b = not_nullish r" by blast
    then have "\<forall>w'. extractRehydrationInfo options w' action s1 = (r, s1)"
      by (simp add: extractRehydrationInfo_cached)
    moreover have "\<forall>w'. hasRehydrationInfo options w' action s1 = (b, s1)"
      using res(3) by (simp add: hasRehydrationInfo_cached)
    ultimately show ?thesis using res(1,4) r(2) by blast
  qed
  have C: "fst (hasRehydrationInfo options w action s) = False"
    if none: "\<forall>f. opt_extractRehydrationInfo options \<noteq> Val f"
  proof -
    obtain b s1 where h: "hasRehydrationInfo options w action s = (b, s1)"
      by (cases "hasRehydrationInfo options w action s")
    from hasRehydrationInfo_result(1,2)[OF inv h] obtain r where
      "extract_cache s1 action = Some r" "b = not_nullish r" "rehydration_caches_ok options s1"
      by blast
    with none have "r = JUndefined" unfolding rehydration_caches_ok_def by blast
    with \<open>b = not_nullish r\<close> h show ?thesis by simp
  qed
  from F H A B C show ?thesis by blast
qed

text \<open>
  An instance: in the example api the user's function returns the content of the action,
  and no result is cached for the action 1. The first call returns what the user's
  function returns, an object; a second call, when the content has become \<open>null\<close>, still
  returns the object, and \<open>hasRehydrationInfo\<close> is true. Had the content been \<open>null\<close> at
  the first call, \<open>hasRehydrationInfo\<close> would be false.
\<close>

theorem rehydration_info_memoized_witness:
  "rehydration_caches_ok example_options example_state
   \<and> extract_cache example_state 1 = None
   \<and> opt_extractRehydrationInfo example_options = Val (\<lambda>action r w. w action)
   \<and> fst (extractRehydrationInfo example_options (\<lambda>a. JObject [(''queries'', JNumber (real a))]) 1
            example_state)
       = JObject [(''queries'', JNumber 1)]
   \<and> fst (extractRehydrationInfo example_options (\<lambda>a. JNull) 1
            (snd (extractRehydrationInfo example_options
                    (\<lambda>a. JObject [(''queries'', JNumber (real a))]) 1 example_state)))
       = JObject [(''queries'', JNumber 1)]
   \<and> fst (hasRehydrationInfo example_options (\<lambda>a. JNull) 1
            (snd (extractRehydrationInfo example_options
                    (\<lambda>a. JObject [(''queries'', JNumber (real a))]) 1 example_state)))
       = True
   \<and> fst (hasRehydrationInfo example_options (\<lambda>a. JNull) 1 example_state) = False"
proof -
  let ?w = "\<lambda>a::nat. JObject [(''queries'', JNumber (real a))]"
  let ?run = "extractRehydrationInfo example_options ?w 1 example_state"
  have inv: "rehydration_caches_ok example_options example_state"
    unfolding example_state_def by (rule baseCreateApi_caches_ok)
  have miss: "extract_cache example_state 1 = None"
    by (simp add: example_defs)
  have user: "opt_extractRehydrationInfo example_options = Val (\<lambda>action r w. w action)"
    by (simp add: example_options_def)
  note inst = rehydration_info_memoized[OF inv, of 1 ?w]
  from inst miss have "fst ?run
      = (case opt_extractRehydrationInfo example_options of
           Val f \<Rightarrow> f 1 (case reducerPath example_options of Val p \<Rightarrow> p | _ \<Rightarrow> ''api'') ?w
         | _ \<Rightarrow> JUndefined)"
    by blast
  then have first: "fst ?run = JObject [(''queries'', JNumber 1)]"
    unfolding user by simp
  note again = inst[THEN conjunct2, THEN conjunct2, THEN conjunct1, rule_format,
      OF surjective_pairing]
  from again have "extractRehydrationInfo example_options (\<lambda>a. JNull) 1 (snd ?run)
                     = (fst ?run, snd ?run)"
    by blast
  then have 2: "fst (extractRehydrationInfo example_options (\<lambda>a. JNull) 1 (snd ?run))
                  = JObject [(''queries'', JNumber 1)]"
    using first by simp
  from again have "fst (hasRehydrationInfo example_options (\<lambda>a. JNull) 1 (snd ?run))
                     = not_nullish (fst ?run)"
    by blast
  then have 3: "fst (hasRehydrationInfo example_options (\<lambda>a. JNull) 1 (snd ?run)) = True"
    using first by simp
  from rehydration_info_memoized[OF inv, of 1 "\<lambda>a::nat. JNull"] miss
  have "fst (hasRehydrationInfo example_options (\<lambda>a. JNull) 1 example_state)
      = not_nullish
          (case opt_extractRehydrationInfo example_options of
             Val f \<Rightarrow> f 1 (case reducerPath example_options of Val p \<Rightarrow> p | _ \<Rightarrow> ''api'')
                        (\<lambda>a::nat. JNull)
           | _ \<Rightarrow> JUndefined)"
    by blast
  then have 4: "fst (hasRehydrationInfo example_options (\<lambda>a. JNull) 1 example_state) = False"
    unfolding user by simp
  from inv miss user first 2 3 4 show ?thesis by blast
qed

section \<open>Tag types\<close>

text \<open>
  C7. Let \<open>ts\<close> be the \<open>tagTypes\<close> of the options with defaults. A call of
  \<open>enhanceEndpoints\<close> with the list \<open>addTagTypes\<close> appends to \<open>ts\<close> exactly the tags of the
  list that are not in \<open>ts\<close>, in the order given and each once (for a list without
  repetitions: the list filtered). If \<open>ts\<close> has no duplicates, neither has the result. The
  call returns the api object it was called on.
\<close>

theorem enhanceEndpoints_adds_tag_types:
  assumes tt: "tagTypes (optionsWithDefaults s) = Val ts"
      and run: "enhanceEndpoints (Val tags) enhance_endpoints s = (r, s')"
  shows "tagTypes (optionsWithDefaults s')
           = Val (ts @ first_occurrences (filter (\<lambda>t. t \<notin> set ts) tags))
       \<and> (distinct tags \<longrightarrow>
            tagTypes (optionsWithDefaults s') = Val (ts @ filter (\<lambda>t. t \<notin> set ts) tags))
       \<and> (distinct ts \<longrightarrow>
            distinct (ts @ first_occurrences (filter (\<lambda>t. t \<notin> set ts) tags)))
       \<and> r = Inr (api s)
       \<and> api s' = api s"
proof -
  let ?added = "first_occurrences (filter (\<lambda>t. t \<notin> set ts) tags)"
  from tt run have 1: "tagTypes (optionsWithDefaults s') = Val (ts @ ?added)"
    and 4: "r = Inr (api s)" and 5: "api s' = api s"
    by (auto simp: enhanceEndpoints_def Let_def addTagTypes_loop_eq enhance_loop_fields
             split: optional.splits)
  have 2: "tagTypes (optionsWithDefaults s') = Val (ts @ filter (\<lambda>t. t \<notin> set ts) tags)"
    if "distinct tags"
    using 1 that by (simp add: first_occurrences_distinct)
  have 3: "distinct (ts @ ?added)" if "distinct ts"
    using that by (auto simp: distinct_first_occurrences set_first_occurrences)
  from 1 2 3 4 5 show ?thesis by blast
qed

text \<open>
  An instance: the example api has the tag \<open>Post\<close>; adding \<open>User\<close>, \<open>Post\<close>, \<open>User\<close>,
  \<open>Comment\<close> gives \<open>Post\<close>, \<open>User\<close>, \<open>Comment\<close>.
\<close>

theorem enhanceEndpoints_adds_tag_types_witness:
  "tagTypes (optionsWithDefaults example_state) = Val [''Post'']
   \<and> tagTypes (optionsWithDefaults
        (snd (enhanceEndpoints (Val [''User'', ''Post'', ''User'', ''Comment'']) Absent example_state)))
       = Val [''Post'', ''User'', ''Comment'']
   \<and> fst (enhanceEndpoints (Val [''User'', ''Post'', ''User'', ''Comment'']) Absent example_state)
       = Inr 7"
proof -
  let ?run = "enhanceEndpoints (Val [''User'', ''Post'', ''User'', ''Comment'']) Absent example_state"
  have tt: "tagTypes (optionsWithDefaults example_state) = Val [''Post'']"
    by (simp add: example_defs)
  have a: "api example_state = 7" by (simp add: example_defs)
  from enhanceEndpoints_adds_tag_types[OF tt, of "[''User'', ''Post'', ''User'', ''Comment'']" Absent
         "fst ?run" "snd ?run", OF surjective_pairing]
  have "tagTypes (optionsWithDefaults (snd ?run))
          = Val ([''Post''] @ first_occurrences
                   (filter (\<lambda>t. t \<notin> set [''Post'']) [''User'', ''Post'', ''User'', ''Comment'']))"
    and "fst ?run = Inr (api example_state)" by blast+
  with tt a show ?thesis by simp
qed

section \<open>The placeholder batch\<close>

text \<open>
  C8. \<open>context.batch(fn)\<close> calls \<open>fn\<close> once, at once: the state after the call is the state
  one call of \<open>fn\<close> leaves, and the value returned is \<open>undefined\<close>, whatever \<open>fn\<close> returns.
\<close>

theorem batch_calls_once: "batch fn w = (JUndefined, snd (fn w))"
  by (simp add: batch_def split: prod.splits)

end
